theory Spec2Isabelle
  imports Main
begin

section \<open>Meal Match: preference ledger, match detection, favourites, notifications, realtime\<close>

text \<open>
  The development embeds the parts of the repository that decide how a swipe becomes a
  match: the tables, constraints, row level security policies and triggers of
  \<^verbatim>\<open>supabase/migrations/001_initial_schema.sql\<close>, the hooks \<^verbatim>\<open>useSwipes\<close>,
  \<^verbatim>\<open>useMatches\<close> and \<^verbatim>\<open>useRealtime\<close>, the swipe handlers of
  \<^verbatim>\<open>SwipeScreen.tsx\<close> and \<^verbatim>\<open>sendMatchNotification\<close>.

  Conventions. A UUID is a natural number, a recipe id (TEXT) a string, a timestamp a
  natural number. A table is the list of its committed rows in insertion order. Every
  statement sent to the store is a transaction of its own, together with the triggers it
  fires, under the store's default isolation (read committed): it sees the rows committed
  before it and its own. Client code is a sequence of such statements and other clients
  may run between any two of them. The insert of a swipe is the one statement whose
  trigger reads rows that other clients write, so it is modelled in two steps, the
  statement and its commit, and other transactions may run in between; the function
  \<open>insert_swipe\<close> is the two steps with nothing in between. Any awaited call may fail:
  the environment lets it through, makes it come back with an error, or makes it throw,
  and a failed call leaves the tables as they are. The store's clock advances by one with
  every statement. The \<^verbatim>\<open>couples\<close>, \<^verbatim>\<open>recipes\<close> and \<^verbatim>\<open>profiles\<close> tables are
  read but never written by the code modelled here. The React flag \<^verbatim>\<open>recording\<close> of
  \<^verbatim>\<open>useSwipes\<close> is left out.
\<close>

subsection \<open>Rows (the interfaces of \<^verbatim>\<open>src/lib/supabase.ts\<close>, the columns of the schema)\<close>

type_synonym uuid = nat
type_synonym recipe_key = string
type_synonym timestamp = nat

datatype direction = Like | Dislike

record Profile =
  p_id :: uuid
  push_token :: "string option"

record Couple =
  c_id :: uuid
  user1_id :: uuid
  user2_id :: "uuid option"

record Swipe =
  s_id :: uuid
  user_id :: uuid
  s_recipe_id :: recipe_key
  s_couple_id :: uuid
  direction :: direction
  s_created_at :: timestamp

record Match =
  m_id :: uuid
  m_couple_id :: uuid
  m_recipe_id :: recipe_key
  is_favorite :: bool
  matched_at :: timestamp
  m_created_at :: timestamp
  updated_at :: timestamp

text \<open>The message handed to the push gateway by \<^verbatim>\<open>sendMatchNotification\<close>.\<close>

record Envelope =
  env_to :: string
  env_sound :: string
  env_title :: string
  env_body :: string
  env_data_type :: string
  env_data_recipeName :: string

subsection \<open>Errors, replies, console\<close>

text \<open>
  An \<^verbatim>\<open>Error\<close> value. The first four are what the store answers when a policy or a
  constraint rejects a statement, or when \<^verbatim>\<open>.single()\<close> / \<^verbatim>\<open>.maybeSingle()\<close> does
  not find the number of rows it asks for; \<open>Unavailable\<close> stands for every failure to
  reach the store or the gateway; \<open>Rejected\<close> is the gateway's \<^verbatim>\<open>result.errors\<close>
  (the whole request refused).
\<close>

datatype err =
    RowLevelSecurity
  | UniqueViolation
  | ForeignKeyViolation
  | NotSingleRow
  | Unavailable
  | Rejected

text \<open>
  What an awaited call gives back: \<^verbatim>\<open>{data, error: null}\<close>, \<^verbatim>\<open>{data: null, error}\<close>,
  or a thrown exception.
\<close>

datatype 'r reply = Data 'r | Error err | Threw err

text \<open>
  What the environment does to one awaited call: let it through, make it come back with an
  error, or make it throw. A failed call does not reach the tables.
\<close>

datatype fault = Respond | Fail err | Throw err

datatype log_entry =
    ConsoleError string err
  | ConsoleWarn string
  | LoggerError err string string

subsection \<open>The world: tables, clock, console and the push gateway\<close>

record world =
  profiles :: "Profile list"
  couples :: "Couple list"
  recipes :: "recipe_key list"
  swipes :: "Swipe list"
  matches :: "Match list"
  next_uuid :: uuid
  now :: timestamp
  console :: "log_entry list"
  outbox :: "Envelope list"
  dead_tokens :: "string list"

text \<open>
  \<open>outbox\<close> is what the push gateway has been handed; \<open>dead_tokens\<close> are the tokens the
  gateway no longer delivers to (a device that is not registered any more).
\<close>

definition tick :: "world \<Rightarrow> world" where
  "tick w = w\<lparr>now := Suc (now w)\<rparr>"

text \<open>
  The condition shared by the policies on \<^verbatim>\<open>swipes\<close> and \<^verbatim>\<open>matches\<close>:
  \<^verbatim>\<open>EXISTS (SELECT 1 FROM couples WHERE couples.id = couple_id AND
  (couples.user1_id = auth.uid() OR couples.user2_id = auth.uid()))\<close>.
\<close>

definition member :: "world \<Rightarrow> uuid \<Rightarrow> uuid \<Rightarrow> bool" where
  "member w uid cid =
     list_ex (\<lambda>c. c_id c = cid \<and> (user1_id c = uid \<or> user2_id c = Some uid)) (couples w)"

text \<open>\<^verbatim>\<open>.maybeSingle()\<close> and \<^verbatim>\<open>.single()\<close> on the rows a query selects.\<close>

definition maybeSingle :: "'r list \<Rightarrow> 'r option reply" where
  "maybeSingle rows =
     (case rows of [] \<Rightarrow> Data None | [x] \<Rightarrow> Data (Some x) | _ \<Rightarrow> Error NotSingleRow)"

definition single :: "'r list \<Rightarrow> 'r reply" where
  "single rows = (case rows of [x] \<Rightarrow> Data x | _ \<Rightarrow> Error NotSingleRow)"

subsection \<open>The trigger \<^verbatim>\<open>check_for_match\<close> (schema lines 413 to 452)\<close>

definition has_match :: "world \<Rightarrow> uuid \<Rightarrow> recipe_key \<Rightarrow> bool" where
  "has_match w cid rid = list_ex (\<lambda>m. m_couple_id m = cid \<and> m_recipe_id m = rid) (matches w)"

text \<open>
  \<^verbatim>\<open>INSERT INTO matches (couple_id, recipe_id, matched_at) VALUES (.., .., NOW())
  ON CONFLICT (couple_id, recipe_id) DO NOTHING\<close>; the other columns take their defaults.
  \<open>t\<close> is \<^verbatim>\<open>NOW()\<close>, the time the transaction started.
\<close>

definition insert_match_on_conflict_do_nothing ::
  "uuid \<Rightarrow> recipe_key \<Rightarrow> timestamp \<Rightarrow> world \<Rightarrow> world" where
  "insert_match_on_conflict_do_nothing cid rid t w =
     (if has_match w cid rid then w
      else w\<lparr>matches := matches w @
                [\<lparr>m_id = next_uuid w, m_couple_id = cid, m_recipe_id = rid, is_favorite = False,
                  matched_at = t, m_created_at = t, updated_at = t\<rparr>],
              next_uuid := Suc (next_uuid w)\<rparr>)"

text \<open>
  The two conditions of the trigger, \<^verbatim>\<open>NEW.direction = 'like'\<close> and
  \<^verbatim>\<open>partner_swipe_direction = 'like'\<close>, with the two queries that compute the second,
  evaluated on the rows \<open>w\<close> shows to the trigger (the function is \<^verbatim>\<open>SECURITY DEFINER\<close>,
  no policy applies).
\<close>

definition trigger_sees_partner_like :: "Swipe \<Rightarrow> world \<Rightarrow> bool" where
  "trigger_sees_partner_like new w =
     (direction new = Like \<and>
      (let partner_id =
             (case find (\<lambda>c. c_id c = s_couple_id new) (couples w) of
                None \<Rightarrow> None
              | Some c \<Rightarrow> if user1_id c = user_id new then user2_id c else Some (user1_id c));
           partner_swipe_direction =
             (case partner_id of
                None \<Rightarrow> None
              | Some p \<Rightarrow>
                  map_option direction
                    (find (\<lambda>s. user_id s = p \<and> s_recipe_id s = s_recipe_id new
                               \<and> s_couple_id s = s_couple_id new) (swipes w)))
       in partner_swipe_direction = Some Like))"

text \<open>The trigger, run on a world that holds the new row and every row it can see.\<close>

definition check_for_match :: "Swipe \<Rightarrow> world \<Rightarrow> world" where
  "check_for_match new w =
     (if trigger_sees_partner_like new w
      then insert_match_on_conflict_do_nothing (s_couple_id new) (s_recipe_id new) (now w) w
      else w)"

subsection \<open>Statements, as the store executes them for the signed-in user \<open>uid\<close>\<close>

text \<open>
  \<^verbatim>\<open>from('swipes').insert({user_id, recipe_id, couple_id, direction}).select().single()\<close>
  when no other transaction overlaps it: the insert policy, then the constraint
  \<^verbatim>\<open>unique_user_recipe_swipe\<close>, then the foreign key to \<^verbatim>\<open>recipes\<close>; the row is
  stored and the trigger \<^verbatim>\<open>on_swipe_created\<close> runs in the same transaction, seeing
  every swipe committed so far.
\<close>

definition insert_swipe ::
  "uuid \<Rightarrow> uuid \<Rightarrow> recipe_key \<Rightarrow> uuid \<Rightarrow> direction \<Rightarrow> world \<Rightarrow> Swipe reply \<times> world" where
  "insert_swipe uid u rid cid d w =
     (if \<not> (uid = u \<and> member w uid cid) then (Error RowLevelSecurity, w)
      else if list_ex (\<lambda>s. user_id s = u \<and> s_recipe_id s = rid \<and> s_couple_id s = cid) (swipes w)
      then (Error UniqueViolation, w)
      else if rid \<notin> set (recipes w) then (Error ForeignKeyViolation, w)
      else
        let new = \<lparr>s_id = next_uuid w, user_id = u, s_recipe_id = rid, s_couple_id = cid,
                   direction = d, s_created_at = now w\<rparr>
        in (Data new,
            check_for_match new (w\<lparr>swipes := swipes w @ [new], next_uuid := Suc (next_uuid w)\<rparr>)))"

text \<open>
  The same statement as a transaction that others may overlap. First the statement runs:
  policy, constraints, the new row, and the trigger's two queries, which see the committed
  swipes and the transaction's own row, not the rows of transactions that have not
  committed. Nothing it writes is visible yet; the transaction remembers its row and
  whether the trigger reached its \<^verbatim>\<open>INSERT\<close>.
\<close>

record swipe_txn =
  txn_row :: Swipe
  txn_match :: bool

definition begin_insert_swipe ::
  "uuid \<Rightarrow> uuid \<Rightarrow> recipe_key \<Rightarrow> uuid \<Rightarrow> direction \<Rightarrow> world \<Rightarrow> (err + swipe_txn) \<times> world" where
  "begin_insert_swipe uid u rid cid d w =
     (if \<not> (uid = u \<and> member w uid cid) then (Inl RowLevelSecurity, w)
      else if list_ex (\<lambda>s. user_id s = u \<and> s_recipe_id s = rid \<and> s_couple_id s = cid) (swipes w)
      then (Inl UniqueViolation, w)
      else if rid \<notin> set (recipes w) then (Inl ForeignKeyViolation, w)
      else
        let new = \<lparr>s_id = next_uuid w, user_id = u, s_recipe_id = rid, s_couple_id = cid,
                   direction = d, s_created_at = now w\<rparr>
        in (Inr \<lparr>txn_row = new,
                 txn_match = trigger_sees_partner_like new (w\<lparr>swipes := swipes w @ [new]\<rparr>)\<rparr>,
            w\<lparr>next_uuid := Suc (next_uuid w)\<rparr>))"

text \<open>
  Then the transaction commits: its row becomes visible, and so does the match row of the
  trigger unless the pair has one by now (\<^verbatim>\<open>ON CONFLICT DO NOTHING\<close>), stamped with the
  time the transaction started. A transaction that finds its key taken by a row committed
  in the meantime ends with the unique violation instead (in the store it has waited for
  that row's transaction).
\<close>

definition commit_insert_swipe :: "swipe_txn \<Rightarrow> world \<Rightarrow> Swipe reply \<times> world" where
  "commit_insert_swipe t w =
     (let new = txn_row t in
      if list_ex (\<lambda>s. user_id s = user_id new \<and> s_recipe_id s = s_recipe_id new
                       \<and> s_couple_id s = s_couple_id new) (swipes w)
      then (Error UniqueViolation, w)
      else
        let w1 = w\<lparr>swipes := swipes w @ [new]\<rparr>
        in (Data new,
            if txn_match t
            then insert_match_on_conflict_do_nothing (s_couple_id new) (s_recipe_id new)
                   (s_created_at new) w1
            else w1))"

text \<open>
  \<^verbatim>\<open>from('swipes').select('*').eq('user_id', partnerId).eq('recipe_id', recipeId)
  .eq('couple_id', coupleId).eq('direction', 'like').maybeSingle()\<close>, on the rows the
  select policy shows.
\<close>

definition select_partner_like ::
  "uuid \<Rightarrow> uuid \<Rightarrow> recipe_key \<Rightarrow> uuid \<Rightarrow> world \<Rightarrow> Swipe option reply \<times> world" where
  "select_partner_like uid partner rid cid w =
     (maybeSingle
        (filter (\<lambda>s. member w uid (s_couple_id s) \<and> user_id s = partner \<and> s_recipe_id s = rid
                      \<and> s_couple_id s = cid \<and> direction s = Like) (swipes w)), w)"

text \<open>
  \<^verbatim>\<open>from('matches').select('*').eq('couple_id', coupleId).eq('recipe_id', recipeId)
  .maybeSingle()\<close>.
\<close>

definition select_match ::
  "uuid \<Rightarrow> uuid \<Rightarrow> recipe_key \<Rightarrow> world \<Rightarrow> Match option reply \<times> world" where
  "select_match uid cid rid w =
     (maybeSingle
        (filter (\<lambda>m. member w uid (m_couple_id m) \<and> m_couple_id m = cid \<and> m_recipe_id m = rid)
           (matches w)), w)"

text \<open>
  \<^verbatim>\<open>from('matches').insert({couple_id, recipe_id, is_favorite}).select().single()\<close>: a
  plain insert, rejected by \<^verbatim>\<open>unique_couple_recipe_match\<close> when the pair is present.
\<close>

definition insert_match ::
  "uuid \<Rightarrow> uuid \<Rightarrow> recipe_key \<Rightarrow> bool \<Rightarrow> world \<Rightarrow> Match reply \<times> world" where
  "insert_match uid cid rid fav w =
     (if \<not> member w uid cid then (Error RowLevelSecurity, w)
      else if has_match w cid rid then (Error UniqueViolation, w)
      else if rid \<notin> set (recipes w) then (Error ForeignKeyViolation, w)
      else
        let new = \<lparr>m_id = next_uuid w, m_couple_id = cid, m_recipe_id = rid, is_favorite = fav,
                   matched_at = now w, m_created_at = now w, updated_at = now w\<rparr>
        in (Data new, w\<lparr>matches := matches w @ [new], next_uuid := Suc (next_uuid w)\<rparr>))"

text \<open>
  \<^verbatim>\<open>from('matches').update({is_favorite}).eq('id', matchId)\<close>: the update policy
  selects the rows, the trigger \<^verbatim>\<open>update_matches_updated_at\<close> stamps each updated row; a
  statement that updates no row is not an error.
\<close>

definition update_match_favorite :: "uuid \<Rightarrow> uuid \<Rightarrow> bool \<Rightarrow> world \<Rightarrow> unit reply \<times> world" where
  "update_match_favorite uid mid fav w =
     (Data (),
      w\<lparr>matches :=
           map (\<lambda>m. if m_id m = mid \<and> member w uid (m_couple_id m)
                     then m\<lparr>is_favorite := fav, updated_at := now w\<rparr> else m) (matches w)\<rparr>)"

text \<open>
  \<^verbatim>\<open>from('profiles').select('push_token').eq('id', recipientUserId).single()\<close>; the only
  select policy on \<^verbatim>\<open>profiles\<close> is \<^verbatim>\<open>auth.uid() = id\<close>.
\<close>

definition select_push_token :: "uuid \<Rightarrow> uuid \<Rightarrow> world \<Rightarrow> string option reply \<times> world" where
  "select_push_token uid rid w =
     (single (map push_token (filter (\<lambda>p. p_id p = uid \<and> p_id p = rid) (profiles w))), w)"

text \<open>
  \<^verbatim>\<open>fetch('https://exp.host/--/api/v2/push/send', ..)\<close> followed by
  \<^verbatim>\<open>response.json()\<close>: the envelope is handed to the gateway whatever comes back. What
  comes back is an exception, a body with \<^verbatim>\<open>errors\<close> (the request refused), or a body
  with \<^verbatim>\<open>data\<close>, the ticket of the message: status ok, or status error when the gateway
  does not deliver to the token.
\<close>

datatype ticket = TicketOk | TicketError

definition gateway_send :: "fault \<Rightarrow> Envelope \<Rightarrow> world \<Rightarrow> ticket reply \<times> world" where
  "gateway_send f e w =
     ((case f of
         Respond \<Rightarrow> Data (if env_to e \<in> set (dead_tokens w) then TicketError else TicketOk)
       | Fail x \<Rightarrow> Error x
       | Throw x \<Rightarrow> Threw x),
      w\<lparr>outbox := outbox w @ [e]\<rparr>)"

definition answer :: "fault \<Rightarrow> (world \<Rightarrow> 'r reply \<times> world) \<Rightarrow> world \<Rightarrow> 'r reply \<times> world" where
  "answer f stmt w =
     (case f of Respond \<Rightarrow> stmt (tick w) | Fail x \<Rightarrow> (Error x, tick w) | Throw x \<Rightarrow> (Threw x, tick w))"

subsection \<open>Client code as a sequence of awaited calls\<close>

text \<open>
  A client function is a tree: it returns, writes to the console, or awaits one call and
  continues with the reply. The calls are the ones the hooks make.
\<close>

datatype 'a prog =
    Return 'a
  | Log log_entry "'a prog"
  | InsertSwipe uuid recipe_key uuid direction "Swipe reply \<Rightarrow> 'a prog"
  | SelectPartnerLike uuid recipe_key uuid "Swipe option reply \<Rightarrow> 'a prog"
  | SelectMatch uuid recipe_key "Match option reply \<Rightarrow> 'a prog"
  | InsertMatch uuid recipe_key bool "Match reply \<Rightarrow> 'a prog"
  | UpdateMatchFavorite uuid bool "unit reply \<Rightarrow> 'a prog"
  | SelectPushToken uuid "string option reply \<Rightarrow> 'a prog"
  | GatewaySend Envelope "ticket reply \<Rightarrow> 'a prog"

definition put_log :: "log_entry \<Rightarrow> world \<Rightarrow> world" where
  "put_log e w = w\<lparr>console := console w @ [e]\<rparr>"

text \<open>
  One step of a client signed in as \<open>uid\<close>: the next console write or awaited call, the
  call being a transaction that nothing overlaps.
\<close>

fun perform :: "uuid \<Rightarrow> fault \<Rightarrow> 'a prog \<Rightarrow> world \<Rightarrow> 'a prog \<times> world" where
  "perform uid f (Return a) w = (Return a, w)"
| "perform uid f (Log e p) w = (p, put_log e w)"
| "perform uid f (InsertSwipe u rid cid d k) w =
     (case answer f (insert_swipe uid u rid cid d) w of (r, w') \<Rightarrow> (k r, w'))"
| "perform uid f (SelectPartnerLike p rid cid k) w =
     (case answer f (select_partner_like uid p rid cid) w of (r, w') \<Rightarrow> (k r, w'))"
| "perform uid f (SelectMatch cid rid k) w =
     (case answer f (select_match uid cid rid) w of (r, w') \<Rightarrow> (k r, w'))"
| "perform uid f (InsertMatch cid rid fav k) w =
     (case answer f (insert_match uid cid rid fav) w of (r, w') \<Rightarrow> (k r, w'))"
| "perform uid f (UpdateMatchFavorite mid fav k) w =
     (case answer f (update_match_favorite uid mid fav) w of (r, w') \<Rightarrow> (k r, w'))"
| "perform uid f (SelectPushToken rid k) w =
     (case answer f (select_push_token uid rid) w of (r, w') \<Rightarrow> (k r, w'))"
| "perform uid f (GatewaySend e k) w =
     (case gateway_send f e w of (r, w') \<Rightarrow> (k r, w'))"

text \<open>
  A whole call with nothing running in between. The list says what the environment does to
  the first, second, ... awaited call; calls beyond the list go through.
\<close>

definition next_fault :: "fault list \<Rightarrow> fault" where
  "next_fault fs = (case fs of [] \<Rightarrow> Respond | f # _ \<Rightarrow> f)"

primrec run :: "'a prog \<Rightarrow> uuid \<Rightarrow> fault list \<Rightarrow> world \<Rightarrow> 'a \<times> world" where
  "run (Return a) uid fs w = (a, w)"
| "run (Log e p) uid fs w = run p uid fs (put_log e w)"
| "run (InsertSwipe u rid cid d k) uid fs w =
     (case answer (next_fault fs) (insert_swipe uid u rid cid d) w of
        (r, w') \<Rightarrow> run (k r) uid (tl fs) w')"
| "run (SelectPartnerLike p rid cid k) uid fs w =
     (case answer (next_fault fs) (select_partner_like uid p rid cid) w of
        (r, w') \<Rightarrow> run (k r) uid (tl fs) w')"
| "run (SelectMatch cid rid k) uid fs w =
     (case answer (next_fault fs) (select_match uid cid rid) w of
        (r, w') \<Rightarrow> run (k r) uid (tl fs) w')"
| "run (InsertMatch cid rid fav k) uid fs w =
     (case answer (next_fault fs) (insert_match uid cid rid fav) w of
        (r, w') \<Rightarrow> run (k r) uid (tl fs) w')"
| "run (UpdateMatchFavorite mid fav k) uid fs w =
     (case answer (next_fault fs) (update_match_favorite uid mid fav) w of
        (r, w') \<Rightarrow> run (k r) uid (tl fs) w')"
| "run (SelectPushToken rid k) uid fs w =
     (case answer (next_fault fs) (select_push_token uid rid) w of
        (r, w') \<Rightarrow> run (k r) uid (tl fs) w')"
| "run (GatewaySend e k) uid fs w =
     (case gateway_send (next_fault fs) e w of
        (r, w') \<Rightarrow> run (k r) uid (tl fs) w')"

subsection \<open>\<^verbatim>\<open>useSwipes.recordSwipe\<close>\<close>

record UseSwipesOptions =
  coupleId :: uuid
  userId :: uuid
  partnerId :: "uuid option"

record SwipeResult =
  swipe :: "Swipe option"
  isMatch :: bool
  match :: "Match option"
  error :: "err option"

text \<open>The \<^verbatim>\<open>catch\<close> block of \<^verbatim>\<open>recordSwipe\<close>.\<close>

definition recordSwipe_catch :: "err \<Rightarrow> SwipeResult prog" where
  "recordSwipe_catch e =
     Log (ConsoleError ''Error recording swipe:'' e)
       (Log (LoggerError e ''useSwipes'' ''recordSwipe'')
          (Return \<lparr>swipe = None, isMatch = False, match = None, error = Some e\<rparr>))"

definition recordSwipe :: "UseSwipesOptions \<Rightarrow> recipe_key \<Rightarrow> direction \<Rightarrow> SwipeResult prog" where
  "recordSwipe opts recipeId dir =
     InsertSwipe (userId opts) recipeId (coupleId opts) dir (\<lambda>r1.
       case r1 of
         Threw e \<Rightarrow> recordSwipe_catch e
       | Error swipeError \<Rightarrow>
           Log (LoggerError swipeError ''useSwipes'' ''recordSwipe'')
             (Return \<lparr>swipe = None, isMatch = False, match = None, error = Some swipeError\<rparr>)
       | Data sw \<Rightarrow>
           if dir = Dislike
           then Return \<lparr>swipe = Some sw, isMatch = False, match = None, error = None\<rparr>
           else
             (case partnerId opts of
                None \<Rightarrow> Return \<lparr>swipe = Some sw, isMatch = False, match = None, error = None\<rparr>
              | Some partner \<Rightarrow>
                  SelectPartnerLike partner recipeId (coupleId opts) (\<lambda>r2.
                    case r2 of
                      Threw e \<Rightarrow> recordSwipe_catch e
                    | Error partnerSwipeError \<Rightarrow>
                        Log (ConsoleError ''Error checking partner swipe:'' partnerSwipeError)
                          (Log (LoggerError partnerSwipeError ''useSwipes'' ''checkPartnerSwipe'')
                             (Return \<lparr>swipe = Some sw, isMatch = False, match = None,
                                      error = None\<rparr>))
                    | Data None \<Rightarrow>
                        Return \<lparr>swipe = Some sw, isMatch = False, match = None, error = None\<rparr>
                    | Data (Some partnerSwipe) \<Rightarrow>
                        SelectMatch (coupleId opts) recipeId (\<lambda>r3.
                          case r3 of
                            Threw e \<Rightarrow> recordSwipe_catch e
                          | Data (Some existingMatch) \<Rightarrow>
                              Return \<lparr>swipe = Some sw, isMatch = True,
                                      match = Some existingMatch, error = None\<rparr>
                          | _ \<Rightarrow>
                              InsertMatch (coupleId opts) recipeId False (\<lambda>r4.
                                case r4 of
                                  Threw e \<Rightarrow> recordSwipe_catch e
                                | Error matchError \<Rightarrow>
                                    Log (ConsoleError ''Error creating match:'' matchError)
                                      (Log (LoggerError matchError ''useSwipes'' ''createMatch'')
                                         (Return \<lparr>swipe = Some sw, isMatch = False,
                                                  match = None, error = None\<rparr>))
                                | Data m \<Rightarrow>
                                    Return \<lparr>swipe = Some sw, isMatch = True, match = Some m,
                                            error = None\<rparr>)))))"

subsection \<open>\<^verbatim>\<open>SwipeScreen\<close>: how the hook gets its options, and the swipe handlers\<close>

text \<open>
  \<^verbatim>\<open>getCurrentUserCouple\<close>: \<^verbatim>\<open>.or(user1_id.eq.uid,user2_id.eq.uid).single()\<close>, null on
  any error.
\<close>

definition getCurrentUserCouple :: "world \<Rightarrow> uuid \<Rightarrow> Couple option" where
  "getCurrentUserCouple w uid =
     (case single (filter (\<lambda>c. user1_id c = uid \<or> user2_id c = Some uid) (couples w)) of
        Data c \<Rightarrow> Some c
      | _ \<Rightarrow> None)"

text \<open>\<^verbatim>\<open>loadUserData\<close> and the \<^verbatim>\<open>useSwipes({coupleId, userId, partnerId})\<close> call.\<close>

definition swipeScreen_options :: "uuid \<Rightarrow> Couple \<Rightarrow> UseSwipesOptions" where
  "swipeScreen_options uid coupleData =
     \<lparr>coupleId = c_id coupleData, userId = uid,
      partnerId = (if user1_id coupleData = uid then user2_id coupleData
                   else Some (user1_id coupleData))\<rparr>"

text \<open>
  \<^verbatim>\<open>handleSwipeRight\<close> and \<^verbatim>\<open>handleSwipeLeft\<close>: nothing happens without a couple,
  otherwise \<^verbatim>\<open>recordSwipe(recipe.id, direction)\<close> is called.
\<close>

definition handleSwipe :: "world \<Rightarrow> uuid \<Rightarrow> recipe_key \<Rightarrow> direction \<Rightarrow> SwipeResult prog option" where
  "handleSwipe w uid recipeId dir =
     (case getCurrentUserCouple w uid of
        None \<Rightarrow> None
      | Some coupleData \<Rightarrow> Some (recordSwipe (swipeScreen_options uid coupleData) recipeId dir))"

subsection \<open>\<^verbatim>\<open>useMatches.toggleFavorite\<close>\<close>

record Recipe =
  r_id :: recipe_key
  title :: string

record MatchWithRecipe = Match +
  recipe :: Recipe

text \<open>
  The state of the hook that \<^verbatim>\<open>toggleFavorite\<close> reads or writes: the fetched list and
  the error. (\<^verbatim>\<open>filteredMatches\<close> is recomputed from the list by an effect.)
\<close>

record UseMatchesState =
  um_matches :: "MatchWithRecipe list"
  um_error :: "err option"

definition toggleFavorite_catch :: "UseMatchesState \<Rightarrow> err \<Rightarrow> UseMatchesState prog" where
  "toggleFavorite_catch st e =
     Log (ConsoleError ''Error toggling favorite:'' e)
       (Log (LoggerError e ''useMatches'' ''toggleFavorite'')
          (Return (st\<lparr>um_error := Some e\<rparr>)))"

definition toggleFavorite :: "UseMatchesState \<Rightarrow> uuid \<Rightarrow> UseMatchesState prog" where
  "toggleFavorite st matchId =
     (case find (\<lambda>m. m_id m = matchId) (um_matches st) of
        None \<Rightarrow> Return st
      | Some found \<Rightarrow>
          let newFavoriteStatus = \<not> is_favorite found in
          UpdateMatchFavorite matchId newFavoriteStatus (\<lambda>r.
            case r of
              Threw e \<Rightarrow> toggleFavorite_catch st e
            | Error updateError \<Rightarrow> toggleFavorite_catch st updateError
            | Data _ \<Rightarrow>
                Return (st\<lparr>um_matches :=
                             map (\<lambda>m. if m_id m = matchId
                                       then m\<lparr>is_favorite := newFavoriteStatus\<rparr> else m)
                               (um_matches st)\<rparr>)))"

subsection \<open>\<^verbatim>\<open>sendMatchNotification\<close>\<close>




subsection \<open>\<^verbatim>\<open>useRealtime\<close>\<close>

text \<open>The statuses a channel reports to the callback given to \<^verbatim>\<open>.subscribe(..)\<close>.\<close>

datatype channel_status = SUBSCRIBED | TIMED_OUT | CLOSED | CHANNEL_ERROR

fun status_name :: "channel_status \<Rightarrow> string" where
  "status_name SUBSCRIBED = ''SUBSCRIBED''"
| "status_name TIMED_OUT = ''TIMED_OUT''"
| "status_name CLOSED = ''CLOSED''"
| "status_name CHANNEL_ERROR = ''CHANNEL_ERROR''"

record RealtimeConnectionState =
  connected :: bool
  rt_error :: "string option"

record UseRealtimeOptions =
  rt_coupleId :: "uuid option"
  enabled :: bool

text \<open>
  The hook's two state cells; the value of \<^verbatim>\<open>channel\<close> that the memoised callback
  \<^verbatim>\<open>subscribe\<close> closed over when it was last built (\<^verbatim>\<open>useCallback\<close> with the
  dependencies \<^verbatim>\<open>[coupleId, enabled, onNewMatch]\<close>, \<^verbatim>\<open>channel\<close> not among them); and
  what the realtime client holds: the channel instances that were subscribed and not
  unsubscribed since, and how many were created. A channel instance is the number it was
  created under.
\<close>

record UseRealtimeState =
  connectionState :: RealtimeConnectionState
  channel :: "nat option"
  subscribe_sees :: "nat option"
  joined :: "nat list"
  next_channel :: nat

text \<open>The callback passed to \<^verbatim>\<open>.subscribe((status) => ..)\<close>.\<close>

definition on_status :: "channel_status \<Rightarrow> UseRealtimeState \<Rightarrow> UseRealtimeState" where
  "on_status status st =
     (if status = SUBSCRIBED
      then st\<lparr>connectionState := \<lparr>connected = True, rt_error = None\<rparr>\<rparr>
      else if status = CLOSED \<or> status = CHANNEL_ERROR
      then st\<lparr>connectionState :=
                \<lparr>connected = False, rt_error = Some (''Connection '' @ status_name status)\<rparr>\<rparr>
      else st)"

text \<open>
  \<^verbatim>\<open>subscribe\<close>: \<^verbatim>\<open>if (channel) channel.unsubscribe()\<close> reads the channel the
  callback closed over, not the one the hook holds now.
\<close>

definition subscribe :: "UseRealtimeOptions \<Rightarrow> UseRealtimeState \<Rightarrow> UseRealtimeState" where
  "subscribe opts st =
     (if rt_coupleId opts = None \<or> \<not> enabled opts then st
      else
        let st1 = (case subscribe_sees st of
                     None \<Rightarrow> st
                   | Some old \<Rightarrow> st\<lparr>joined := removeAll old (joined st)\<rparr>);
            newChannel = next_channel st1
        in st1\<lparr>joined := joined st1 @ [newChannel], next_channel := Suc newChannel,
               channel := Some newChannel\<rparr>)"

text \<open>
  \<^verbatim>\<open>unsubscribe\<close> is rebuilt whenever \<^verbatim>\<open>channel\<close> changes (its only dependency), so
  the one the hook returns reads the current channel.
\<close>

definition unsubscribe :: "UseRealtimeState \<Rightarrow> UseRealtimeState" where
  "unsubscribe st =
     (case channel st of
        None \<Rightarrow> st
      | Some ch \<Rightarrow>
          st\<lparr>joined := removeAll ch (joined st), channel := None,
             connectionState := \<lparr>connected = False, rt_error = None\<rparr>\<rparr>)"

text \<open>
  What can happen to a mounted hook: a call of \<^verbatim>\<open>subscribe\<close>, a call of
  \<^verbatim>\<open>unsubscribe\<close>, a channel instance that was created reporting a status, or a render
  with a new \<^verbatim>\<open>onNewMatch\<close>, which rebuilds \<^verbatim>\<open>subscribe\<close> around the channel of
  that render. Every instance's callback writes the one \<^verbatim>\<open>connectionState\<close> of the
  hook.
\<close>

datatype rt_event = Subscribe | Unsubscribe | ChannelStatus nat channel_status | Rebuild

fun rt_step :: "UseRealtimeOptions \<Rightarrow> UseRealtimeState \<Rightarrow> rt_event \<Rightarrow> UseRealtimeState" where
  "rt_step opts st Subscribe = subscribe opts st"
| "rt_step opts st Unsubscribe = unsubscribe st"
| "rt_step opts st (ChannelStatus ch status) =
     (if ch < next_channel st then on_status status st else st)"
| "rt_step opts st Rebuild = st\<lparr>subscribe_sees := channel st\<rparr>"

definition mounted :: UseRealtimeState where
  "mounted = \<lparr>connectionState = \<lparr>connected = False, rt_error = None\<rparr>, channel = None,
              subscribe_sees = None, joined = [], next_channel = 0\<rparr>"

subsection \<open>Several clients at once\<close>

text \<open>
  The system is the world and the calls in flight, each with the user it runs for. A user
  swipes a card (\<^verbatim>\<open>handleSwipeRight\<close>, \<^verbatim>\<open>handleSwipeLeft\<close>), a user taps the heart of
  a match (\<^verbatim>\<open>toggleFavorite\<close>, with the state its hook holds), or one call in flight
  takes its next step. A call of \<^verbatim>\<open>recordSwipe\<close> whose swipe insert has run and not
  yet committed is a \<open>SwipeCommit\<close>: the transaction, and the code waiting for the reply.
\<close>

datatype task =
    SwipeTask "SwipeResult prog"
  | SwipeCommit swipe_txn "Swipe reply \<Rightarrow> SwipeResult prog"
  | FavoriteTask "UseMatchesState prog"

datatype event =
    SwipeCard uuid recipe_key direction
  | TapFavorite uuid UseMatchesState uuid
  | Advance nat fault

type_synonym system = "world \<times> (uuid \<times> task) list"

text \<open>
  The next step of a call in flight. A swipe insert runs as a statement, then commits, and
  fails as a whole when the environment fails either step; every other call is one step.
\<close>

fun advance :: "uuid \<Rightarrow> fault \<Rightarrow> task \<Rightarrow> world \<Rightarrow> task \<times> world" where
  "advance uid f (SwipeTask (InsertSwipe u rid cid d k)) w =
     (case f of
        Respond \<Rightarrow>
          (case begin_insert_swipe uid u rid cid d (tick w) of
             (Inl e, w') \<Rightarrow> (SwipeTask (k (Error e)), w')
           | (Inr t, w') \<Rightarrow> (SwipeCommit t k, w'))
      | Fail e \<Rightarrow> (SwipeTask (k (Error e)), tick w)
      | Throw e \<Rightarrow> (SwipeTask (k (Threw e)), tick w))"
| "advance uid f (SwipeCommit t k) w =
     (case f of
        Respond \<Rightarrow> (case commit_insert_swipe t w of (r, w') \<Rightarrow> (SwipeTask (k r), w'))
      | Fail e \<Rightarrow> (SwipeTask (k (Error e)), w)
      | Throw e \<Rightarrow> (SwipeTask (k (Threw e)), w))"
| "advance uid f (SwipeTask p) w = (case perform uid f p w of (p', w') \<Rightarrow> (SwipeTask p', w'))"
| "advance uid f (FavoriteTask p) w =
     (case perform uid f p w of (p', w') \<Rightarrow> (FavoriteTask p', w'))"

fun fire :: "system \<Rightarrow> event \<Rightarrow> system" where
  "fire (w, ts) (SwipeCard uid rid d) =
     (case handleSwipe w uid rid d of
        None \<Rightarrow> (w, ts)
      | Some p \<Rightarrow> (w, ts @ [(uid, SwipeTask p)]))"
| "fire (w, ts) (TapFavorite uid st mid) = (w, ts @ [(uid, FavoriteTask (toggleFavorite st mid))])"
| "fire (w, ts) (Advance i f) =
     (if i < length ts
      then (case ts ! i of
              (uid, t) \<Rightarrow> (case advance uid f t w of (t', w') \<Rightarrow> (w', ts[i := (uid, t')])))
      else (w, ts))"

definition exec :: "event list \<Rightarrow> system \<Rightarrow> system" where
  "exec evs s = foldl fire s evs"







subsection \<open>Predicates on the store\<close>

definition liked :: "world \<Rightarrow> uuid \<Rightarrow> recipe_key \<Rightarrow> uuid \<Rightarrow> bool" where
  "liked w u rid cid =
     list_ex (\<lambda>s. user_id s = u \<and> s_recipe_id s = rid \<and> s_couple_id s = cid \<and> direction s = Like)
       (swipes w)"

text \<open>Both slots of the couple are filled and both users have a like on the recipe.\<close>

definition both_liked :: "world \<Rightarrow> uuid \<Rightarrow> recipe_key \<Rightarrow> bool" where
  "both_liked w cid rid =
     list_ex (\<lambda>c. c_id c = cid \<and>
                (case user2_id c of
                   None \<Rightarrow> False
                 | Some p \<Rightarrow> liked w (user1_id c) rid cid \<and> liked w p rid cid)) (couples w)"

definition match_count :: "world \<Rightarrow> uuid \<Rightarrow> recipe_key \<Rightarrow> nat" where
  "match_count w cid rid =
     length (filter (\<lambda>m. m_couple_id m = cid \<and> m_recipe_id m = rid) (matches w))"

definition swipe_count :: "world \<Rightarrow> uuid \<Rightarrow> recipe_key \<Rightarrow> uuid \<Rightarrow> nat" where
  "swipe_count w u rid cid =
     length (filter (\<lambda>s. user_id s = u \<and> s_recipe_id s = rid \<and> s_couple_id s = cid) (swipes w))"

text \<open>The constraints \<^verbatim>\<open>unique_couple_recipe_match\<close> and \<^verbatim>\<open>unique_user_recipe_swipe\<close>.\<close>

definition unique_matches :: "world \<Rightarrow> bool" where
  "unique_matches w = distinct (map (\<lambda>m. (m_couple_id m, m_recipe_id m)) (matches w))"

definition unique_swipes :: "world \<Rightarrow> bool" where
  "unique_swipes w = distinct (map (\<lambda>s. (user_id s, s_recipe_id s, s_couple_id s)) (swipes w))"

text \<open>The primary key of \<^verbatim>\<open>couples\<close>.\<close>

definition couples_pkey :: "world \<Rightarrow> bool" where
  "couples_pkey w = distinct (map c_id (couples w))"

text \<open>
  What the dispatcher's lookup of the recipient's endpoint comes to: the token the store
  hands to the caller, if the call went through and the token is neither null nor empty.
\<close>

definition endpoint_seen :: "string option reply \<Rightarrow> string option" where
  "endpoint_seen r =
     (case r of Data (Some t) \<Rightarrow> if t = [] then None else Some t | _ \<Rightarrow> None)"

definition lookup_endpoint :: "world \<Rightarrow> uuid \<Rightarrow> fault \<Rightarrow> uuid \<Rightarrow> string option" where
  "lookup_endpoint w uid f rid = endpoint_seen (fst (answer f (select_push_token uid rid) w))"


definition realtime_opts :: UseRealtimeOptions where
  "realtime_opts = \<lparr>rt_coupleId = Some 10, enabled = True\<rparr>"


text \<open>
  Every swipe row was written by a member of its couple (the insert policy on
  \<^verbatim>\<open>swipes\<close>).
\<close>

definition swipes_by_members :: "world \<Rightarrow> bool" where
  "swipes_by_members w = list_all (\<lambda>s. member w (user_id s) (s_couple_id s)) (swipes w)"

text \<open>Every match row belongs to a complete couple whose two users both like the recipe.\<close>

definition matches_justified :: "world \<Rightarrow> bool" where
  "matches_justified w = list_all (\<lambda>m. both_liked w (m_couple_id m) (m_recipe_id m)) (matches w)"

text \<open>A store in which nobody has swiped yet: the schema holds and both ledgers are empty.\<close>

definition fresh_store :: "world \<Rightarrow> bool" where
  "fresh_store w = (couples_pkey w \<and> swipes w = [] \<and> matches w = [])"

text \<open>Every swipe row is on a recipe of the \<^verbatim>\<open>recipes\<close> table (the foreign key).\<close>

definition swipes_on_recipes :: "world \<Rightarrow> bool" where
  "swipes_on_recipes w = list_all (\<lambda>s. s_recipe_id s \<in> set (recipes w)) (swipes w)"

text \<open>
  What the store guarantees in every state the system reaches, whatever the clients do:
  the primary key of couples and the two unique constraints.
\<close>

definition store_sound :: "world \<Rightarrow> bool" where
  "store_sound w = (couples_pkey w \<and> unique_swipes w \<and> unique_matches w)"

text \<open>
  A later world: the same couples and recipes, and every swipe still there (the modelled
  code never deletes or rewrites a swipe, a couple or a recipe).
\<close>

definition grows :: "world \<Rightarrow> world \<Rightarrow> bool" where
  "grows w w' = (couples w' = couples w \<and> recipes w' = recipes w
                 \<and> set (swipes w) \<subseteq> set (swipes w'))"

text \<open>
  A client program is guarded in a world when, however the world grows and whatever the
  store replies along the way (a reply carrying a swipe being a true one), it asks for a
  match insert only for a couple and recipe both users like.
\<close>

primrec guarded :: "'a prog \<Rightarrow> world \<Rightarrow> bool" where
  "guarded (Return a) w = True"
| "guarded (Log e p) w = guarded p w"
| "guarded (InsertSwipe u rid cid d k) w =
     (\<forall>r w'. grows w w' \<and> (\<forall>s. r = Data s \<longrightarrow> d = Like \<longrightarrow> liked w' u rid cid)
        \<longrightarrow> guarded (k r) w')"
| "guarded (SelectPartnerLike p rid cid k) w =
     (\<forall>r w'. grows w w' \<and> (\<forall>s. r = Data (Some s) \<longrightarrow> liked w' p rid cid)
        \<longrightarrow> guarded (k r) w')"
| "guarded (SelectMatch cid rid k) w = (\<forall>r w'. grows w w' \<longrightarrow> guarded (k r) w')"
| "guarded (InsertMatch cid rid fav k) w =
     (both_liked w cid rid \<and> (\<forall>r w'. grows w w' \<longrightarrow> guarded (k r) w'))"
| "guarded (UpdateMatchFavorite mid fav k) w = (\<forall>r w'. grows w w' \<longrightarrow> guarded (k r) w')"
| "guarded (SelectPushToken rid k) w = (\<forall>r w'. grows w w' \<longrightarrow> guarded (k r) w')"
| "guarded (GatewaySend e k) w = (\<forall>r w'. grows w w' \<longrightarrow> guarded (k r) w')"

text \<open>
  A swipe transaction in flight is guarded when its row is by a member of the couple and on
  a known recipe, its trigger reached the insert only if, with the row, both users like the
  recipe, and the code waiting for it is guarded.
\<close>

fun task_guarded :: "task \<Rightarrow> world \<Rightarrow> bool" where
  "task_guarded (SwipeTask p) w = guarded p w"
| "task_guarded (SwipeCommit t k) w =
     (member w (user_id (txn_row t)) (s_couple_id (txn_row t))
      \<and> s_recipe_id (txn_row t) \<in> set (recipes w)
      \<and> (txn_match t \<longrightarrow>
            both_liked (w\<lparr>swipes := swipes w @ [txn_row t]\<rparr>) (s_couple_id (txn_row t))
              (s_recipe_id (txn_row t)))
      \<and> (\<forall>r w'. grows w w'
             \<and> (\<forall>s. r = Data s \<longrightarrow> direction (txn_row t) = Like \<longrightarrow>
                    liked w' (user_id (txn_row t)) (s_recipe_id (txn_row t))
                      (s_couple_id (txn_row t)))
           \<longrightarrow> guarded (k r) w'))"
| "task_guarded (FavoriteTask p) w = guarded p w"

text \<open>
  A household for the examples: Alice (21) created couple 10 and Bob (22) joined it; Carol (23)
  created couple 11 and waits for a partner. Alice has registered a push token.
\<close>

definition household :: world where
  "household =
     \<lparr>profiles = [\<lparr>p_id = 21, push_token = Some ''ExponentPushToken[alice]''\<rparr>,
                  \<lparr>p_id = 22, push_token = None\<rparr>, \<lparr>p_id = 23, push_token = None\<rparr>],
      couples = [\<lparr>c_id = 10, user1_id = 21, user2_id = Some 22\<rparr>,
                 \<lparr>c_id = 11, user1_id = 23, user2_id = None\<rparr>],
      recipes = [''R1'', ''R2'', ''R3''],
      swipes = [], matches = [], next_uuid = 100, now = 0, console = [], outbox = [],
      dead_tokens = []\<rparr>"

text \<open>Alice has liked R1; then Bob has liked it too. Nothing failed on the way.\<close>

definition alice_opts :: UseSwipesOptions where
  "alice_opts = \<lparr>coupleId = 10, userId = 21, partnerId = Some 22\<rparr>"

definition bob_opts :: UseSwipesOptions where
  "bob_opts = \<lparr>coupleId = 10, userId = 22, partnerId = Some 21\<rparr>"

definition alice_liked :: world where
  "alice_liked = snd (run (recordSwipe alice_opts ''R1'' Like) 21 [] household)"

definition bob_liked_too :: world where
  "bob_liked_too = snd (run (recordSwipe bob_opts ''R1'' Like) 22 [] alice_liked)"

text \<open>What Bob's \<^verbatim>\<open>useMatches\<close> holds after fetching in \<open>bob_liked_too\<close>.\<close>

definition fetched :: UseMatchesState where
  "fetched =
     \<lparr>um_matches = [\<lparr>m_id = 102, m_couple_id = 10, m_recipe_id = ''R1'', is_favorite = False,
                     matched_at = 3, m_created_at = 3, updated_at = 3,
                     recipe = \<lparr>r_id = ''R1'', title = ''Pasta''\<rparr>\<rparr>],
      um_error = None\<rparr>"

text \<open>
  The invariant of the system: a sound store, swipes by members and on known recipes,
  justified matches, guarded calls in flight.
\<close>

definition sys_ok :: "system \<Rightarrow> bool" where
  "sys_ok s = (store_sound (fst s) \<and> swipes_by_members (fst s) \<and> swipes_on_recipes (fst s)
               \<and> matches_justified (fst s)
               \<and> (\<forall>(uid, t)\<in>set (snd s). task_guarded t (fst s)))"







text \<open>
  Alice and Bob swipe right on R2 at the same moment: both inserts run before either
  commits, so neither trigger sees the other's like; then both calls look up the partner's
  like, both check for the match, both send their insert. Every step goes through.
\<close>

definition race :: "event list" where
  "race = [SwipeCard 21 ''R2'' Like, SwipeCard 22 ''R2'' Like,
           Advance 0 Respond, Advance 1 Respond, Advance 0 Respond, Advance 1 Respond,
           Advance 0 Respond, Advance 1 Respond, Advance 0 Respond, Advance 1 Respond,
           Advance 0 Respond, Advance 1 Respond, Advance 1 Respond, Advance 1 Respond]"


text \<open>
  An evening: Alice likes R1 and nobody else does; Alice dislikes R3 and Bob likes it at
  the same moment, his partner lookup failing; Carol, who has no partner yet, likes R1;
  then Alice likes R2 and Bob likes it after her insert has committed, their later calls
  interleaved.
\<close>

definition evening :: "event list" where
  "evening = [SwipeCard 21 ''R1'' Like, Advance 0 Respond, Advance 0 Respond, Advance 0 Respond,
              SwipeCard 21 ''R3'' Dislike, SwipeCard 22 ''R3'' Like,
              Advance 1 Respond, Advance 2 Respond, Advance 1 Respond, Advance 2 Respond,
              Advance 2 (Fail Unavailable),
              SwipeCard 23 ''R1'' Like, Advance 3 Respond, Advance 3 Respond,
              SwipeCard 21 ''R2'' Like, SwipeCard 22 ''R2'' Like,
              Advance 4 Respond, Advance 4 Respond, Advance 5 Respond, Advance 5 Respond,
              Advance 5 Respond, Advance 4 Respond, Advance 4 Respond, Advance 5 Respond]"

text \<open>A client program that never calls the push gateway, whatever it is answered.\<close>

primrec silent :: "'a prog \<Rightarrow> bool" where
  "silent (Return a) = True"
| "silent (Log e p) = silent p"
| "silent (InsertSwipe u rid cid d k) = (\<forall>r. silent (k r))"
| "silent (SelectPartnerLike p rid cid k) = (\<forall>r. silent (k r))"
| "silent (SelectMatch cid rid k) = (\<forall>r. silent (k r))"
| "silent (InsertMatch cid rid fav k) = (\<forall>r. silent (k r))"
| "silent (UpdateMatchFavorite mid fav k) = (\<forall>r. silent (k r))"
| "silent (SelectPushToken rid k) = (\<forall>r. silent (k r))"
| "silent (GatewaySend e k) = False"

text \<open>The row the store writes for Bob's like of R1 in \<open>alice_liked\<close>.\<close>

definition bobs_swipe :: Swipe where
  "bobs_swipe = \<lparr>s_id = 101, user_id = 22, s_recipe_id = ''R1'', s_couple_id = 10,
                  direction = Like, s_created_at = 3\<rparr>"





section \<open>Properties\<close>

subsection \<open>Duplicate submissions\<close>

text \<open>
  C5. When the ledger already holds the row for (actor, item, group), a second submission by
  that actor, of either direction, is rejected with the store's unique violation: the call
  returns that error with no swipe and no match, the tables are as before (only the clock
  and the console moved), so the old row is not overwritten, the ledger still has exactly
  one row for the tuple, and no partner lookup, match insert or gateway call follows.
\<close>

theorem duplicate_swipe_rejected:
  assumes dup: "swipe_count w (userId opts) rid (coupleId opts) = 1"
    and rls: "uid = userId opts" "member w uid (coupleId opts)"
    and resp: "next_fault fs = Respond"
  shows "run (recordSwipe opts rid d) uid fs w =
           (\<lparr>swipe = None, isMatch = False, match = None, error = Some UniqueViolation\<rparr>,
            put_log (LoggerError UniqueViolation ''useSwipes'' ''recordSwipe'') (tick w))
         \<and> swipe_count (snd (run (recordSwipe opts rid d) uid fs w)) (userId opts) rid
              (coupleId opts) = 1"
proof -
  have ex: "list_ex (\<lambda>s. user_id s = userId opts \<and> s_recipe_id s = rid
                          \<and> s_couple_id s = coupleId opts) (swipes w)"
  proof (rule ccontr)
    assume "\<not> ?thesis"
    then have "filter (\<lambda>s. user_id s = userId opts \<and> s_recipe_id s = rid
                            \<and> s_couple_id s = coupleId opts) (swipes w) = []"
      by (auto simp: list_ex_iff filter_empty_conv)
    with dup show False by (simp add: swipe_count_def)
  qed
  have m: "member (tick w) uid (coupleId opts)"
    using rls by (simp add: member_def tick_def)
  have ins: "insert_swipe uid (userId opts) rid (coupleId opts) d (tick w)
               = (Error UniqueViolation, tick w)"
    using ex m rls by (simp add: insert_swipe_def tick_def)
  have r: "run (recordSwipe opts rid d) uid fs w =
             (\<lparr>swipe = None, isMatch = False, match = None, error = Some UniqueViolation\<rparr>,
              put_log (LoggerError UniqueViolation ''useSwipes'' ''recordSwipe'') (tick w))"
    by (simp add: recordSwipe_def answer_def resp ins)
  show ?thesis using dup by (simp add: r swipe_count_def put_log_def tick_def)
qed

theorem duplicate_swipe_rejected_witness:
  "error (fst (run (recordSwipe alice_opts ''R1'' Dislike) 21 [] alice_liked)) = Some UniqueViolation
   \<and> swipes (snd (run (recordSwipe alice_opts ''R1'' Dislike) 21 [] alice_liked)) = swipes alice_liked
   \<and> swipe_count (snd (run (recordSwipe alice_opts ''R1'' Dislike) 21 [] alice_liked)) 21 ''R1'' 10 = 1"
proof -
  have h1: "swipe_count alice_liked (userId alice_opts) ''R1'' (coupleId alice_opts) = 1"
    by code_simp
  have h2: "21 = userId alice_opts" by (simp add: alice_opts_def)
  have h3: "member alice_liked 21 (coupleId alice_opts)" by code_simp
  have h4: "next_fault [] = Respond" by (simp add: next_fault_def)
  have u: "userId alice_opts = 21" "coupleId alice_opts = 10" by (simp_all add: alice_opts_def)
  note r = duplicate_swipe_rejected [OF h1 h2 h3 h4, of Dislike, unfolded u]
  note r1 = r [THEN conjunct1] and r2 = r [THEN conjunct2]
  show ?thesis
    using r1 r2 by (simp add: put_log_def tick_def)
qed

subsection \<open>Favourites\<close>

text \<open>
  C10. When \<open>matchId\<close> is not the id of a match in the list the hook has fetched,
  \<^verbatim>\<open>toggleFavorite\<close> returns at once: it awaits no call, so no update reaches the store,
  the world (tables, console, gateway) is as before, and the hook state, its error
  included, is as before.
\<close>

theorem toggleFavorite_unknown_id_noop:
  "matchId \<notin> set (map m_id (um_matches st)) \<Longrightarrow>
     toggleFavorite st matchId = Return st \<and> run (toggleFavorite st matchId) uid fs w = (st, w)"
proof -
  assume a: "matchId \<notin> set (map m_id (um_matches st))"
  have "find (\<lambda>m. m_id m = matchId) (um_matches st) = None"
    using a by (auto simp: find_None_iff)
  then show ?thesis by (simp add: toggleFavorite_def)
qed

theorem toggleFavorite_unknown_id_noop_witness:
  "run (toggleFavorite fetched 999) 22 [] bob_liked_too = (fetched, bob_liked_too)"
proof -
  have h: "999 \<notin> set (map m_id (um_matches fetched))" by (simp add: fetched_def)
  show ?thesis using toggleFavorite_unknown_id_noop [OF h] by simp
qed

lemma favorite_update_columns:
  fixes ms :: "'a Match_scheme list" and mid :: uuid and P :: "'a Match_scheme \<Rightarrow> bool"
    and b :: bool and t :: timestamp
  defines "f \<equiv> \<lambda>y. if m_id y = mid \<and> P y then y\<lparr>is_favorite := b, updated_at := t\<rparr> else y"
  shows "map m_id (map f ms) = map m_id ms"
    and "map m_couple_id (map f ms) = map m_couple_id ms"
    and "map m_recipe_id (map f ms) = map m_recipe_id ms"
    and "map matched_at (map f ms) = map matched_at ms"
    and "map m_created_at (map f ms) = map m_created_at ms"
    and "filter (\<lambda>m. m_id m \<noteq> mid) (map f ms) = filter (\<lambda>m. m_id m \<noteq> mid) ms"
  by (induction ms) (auto simp: f_def)

lemma favorite_local_columns:
  fixes ms :: "'a Match_scheme list" and mid :: uuid and b :: bool
  defines "f \<equiv> \<lambda>y. if m_id y = mid then y\<lparr>is_favorite := b\<rparr> else y"
  shows "map (\<lambda>m. m\<lparr>is_favorite := False\<rparr>) (map f ms) = map (\<lambda>m. m\<lparr>is_favorite := False\<rparr>) ms"
    and "filter (\<lambda>m. m_id m \<noteq> mid) (map f ms) = filter (\<lambda>m. m_id m \<noteq> mid) ms"
  by (induction ms) (auto simp: f_def)

text \<open>
  C8. Whatever the hook has fetched, whoever calls and whatever the store does to the
  call, \<^verbatim>\<open>toggleFavorite\<close> leaves the \<^verbatim>\<open>matches\<close> table with the same rows in the same
  order (none created, deleted or duplicated), each with its id, couple, recipe,
  \<^verbatim>\<open>matched_at\<close> and \<^verbatim>\<open>created_at\<close>; rows with another id are untouched in every
  column; and nothing else in the world changes except the clock and the console. In the
  hook's own list only \<^verbatim>\<open>is_favorite\<close> of the entries with that id can change. (On the
  toggled row the store's trigger \<^verbatim>\<open>update_matches_updated_at\<close> also stamps the
  bookkeeping column \<^verbatim>\<open>updated_at\<close>, which is not part of the match record of the data
  model.)
\<close>

theorem toggleFavorite_frame:
  "(case run (toggleFavorite st mid) uid fs w of (st', w') \<Rightarrow>
      map m_id (matches w') = map m_id (matches w)
      \<and> map m_couple_id (matches w') = map m_couple_id (matches w)
      \<and> map m_recipe_id (matches w') = map m_recipe_id (matches w)
      \<and> map matched_at (matches w') = map matched_at (matches w)
      \<and> map m_created_at (matches w') = map m_created_at (matches w)
      \<and> filter (\<lambda>m. m_id m \<noteq> mid) (matches w') = filter (\<lambda>m. m_id m \<noteq> mid) (matches w)
      \<and> w'\<lparr>matches := matches w, now := now w, console := console w\<rparr> = w
      \<and> map (\<lambda>m. m\<lparr>is_favorite := False\<rparr>) (um_matches st')
           = map (\<lambda>m. m\<lparr>is_favorite := False\<rparr>) (um_matches st)
      \<and> filter (\<lambda>m. m_id m \<noteq> mid) (um_matches st') = filter (\<lambda>m. m_id m \<noteq> mid) (um_matches st))"
proof (cases "find (\<lambda>m. m_id m = mid) (um_matches st)")
  case None
  then show ?thesis by (simp add: toggleFavorite_def)
next
  case (Some found)
  show ?thesis
    by (cases "next_fault fs")
       (simp_all add: toggleFavorite_def Let_def Some answer_def update_match_favorite_def
          tick_def toggleFavorite_catch_def put_log_def favorite_update_columns
          favorite_local_columns)
qed

text \<open>
  The toggle does reach the store: Bob taps the heart of match 102 and the row becomes a
  favourite, in the table and in his list; the table still has the one row.
\<close>

theorem toggleFavorite_frame_witness:
  "map is_favorite (matches (snd (run (toggleFavorite fetched 102) 22 [] bob_liked_too))) = [True]
   \<and> map is_favorite (um_matches (fst (run (toggleFavorite fetched 102) 22 [] bob_liked_too)))
       = [True]
   \<and> map m_id (matches (snd (run (toggleFavorite fetched 102) 22 [] bob_liked_too)))
       = map m_id (matches bob_liked_too)
   \<and> map matched_at (matches (snd (run (toggleFavorite fetched 102) 22 [] bob_liked_too)))
       = map matched_at (matches bob_liked_too)"
proof -
  have a: "map is_favorite (matches (snd (run (toggleFavorite fetched 102) 22 [] bob_liked_too)))
            = [True]"
    by code_simp
  have b: "map is_favorite (um_matches (fst (run (toggleFavorite fetched 102) 22 []
             bob_liked_too))) = [True]"
    by code_simp
  show ?thesis
    using toggleFavorite_frame [where st = fetched and mid = 102 and uid = 22 and fs = "[]"
            and w = bob_liked_too] a b
    by (simp add: case_prod_beta)
qed

subsection \<open>The notification dispatcher\<close>




text \<open>
  The select policy on \<^verbatim>\<open>profiles\<close> shows a user their own row only, so the lookup of
  somebody else's token finds no row.
\<close>

lemma lookup_endpoint_of_other_user:
  "uid \<noteq> rid \<Longrightarrow> lookup_endpoint w uid f rid = None"
  by (cases f)
     (auto simp: lookup_endpoint_def answer_def select_push_token_def single_def
        endpoint_seen_def)




subsection \<open>The realtime connection state\<close>


text \<open>
  As long as \<^verbatim>\<open>subscribe\<close> is not rebuilt it reads the channel of the render it was
  built in: a second call creates and holds a new instance and leaves the first one
  joined. After a render that rebuilds it, a call unsubscribes the instance the hook holds.
\<close>

lemma subscribe_reads_closed_over_channel:
  "joined (foldl (rt_step realtime_opts) mounted [Subscribe, Subscribe]) = [0, 1]
   \<and> channel (foldl (rt_step realtime_opts) mounted [Subscribe, Subscribe]) = Some 1
   \<and> joined (foldl (rt_step realtime_opts) mounted [Subscribe, Rebuild, Subscribe]) = [1]"
  by (simp add: realtime_opts_def mounted_def subscribe_def)





section \<open>Invariants of the store and of the system\<close>

subsection \<open>Lists with a key\<close>

lemma distinct_map_eq:
  "distinct (map f xs) \<Longrightarrow> x \<in> set xs \<Longrightarrow> y \<in> set xs \<Longrightarrow> f x = f y \<Longrightarrow> x = y"
  by (auto simp: distinct_map inj_on_def)


lemma find_Some_in: "find P xs = Some x \<Longrightarrow> x \<in> set xs \<and> P x"
  by (auto simp: find_Some_iff)

lemma find_ex: "x \<in> set xs \<Longrightarrow> P x \<Longrightarrow> \<exists>y. find P xs = Some y"
  by (cases "find P xs") (auto simp: find_None_iff)

subsection \<open>What the predicates depend on\<close>

lemma tick_fields [simp]:
  "couples (tick w) = couples w" "swipes (tick w) = swipes w" "matches (tick w) = matches w"
  "recipes (tick w) = recipes w" "profiles (tick w) = profiles w"
  "outbox (tick w) = outbox w" "console (tick w) = console w" "next_uuid (tick w) = next_uuid w"
  by (simp_all add: tick_def)

lemma put_log_fields [simp]:
  "couples (put_log e w) = couples w" "swipes (put_log e w) = swipes w"
  "matches (put_log e w) = matches w" "recipes (put_log e w) = recipes w"
  "profiles (put_log e w) = profiles w" "outbox (put_log e w) = outbox w"
  "next_uuid (put_log e w) = next_uuid w"
  by (simp_all add: put_log_def)

lemma member_cong: "couples w' = couples w \<Longrightarrow> member w' = member w"
  by (simp add: member_def fun_eq_iff)

lemma liked_cong: "swipes w' = swipes w \<Longrightarrow> liked w' = liked w"
  by (simp add: liked_def fun_eq_iff)

lemma has_match_cong: "matches w' = matches w \<Longrightarrow> has_match w' = has_match w"
  by (simp add: has_match_def fun_eq_iff)

lemma both_liked_cong:
  "couples w' = couples w \<Longrightarrow> swipes w' = swipes w \<Longrightarrow> both_liked w' = both_liked w"
proof -
  assume c: "couples w' = couples w" and s: "swipes w' = swipes w"
  have l: "liked w' = liked w" using s by (rule liked_cong)
  have "\<And>cid rid. both_liked w' cid rid = both_liked w cid rid"
    unfolding both_liked_def l c ..
  then show ?thesis by (simp add: fun_eq_iff)
qed

lemma liked_iff:
  "liked w u rid cid \<longleftrightarrow>
     (\<exists>s\<in>set (swipes w). user_id s = u \<and> s_recipe_id s = rid \<and> s_couple_id s = cid
                          \<and> direction s = Like)"
  by (simp add: liked_def list_ex_iff)

lemma member_iff:
  "member w uid cid \<longleftrightarrow>
     (\<exists>c\<in>set (couples w). c_id c = cid \<and> (user1_id c = uid \<or> user2_id c = Some uid))"
  by (simp add: member_def list_ex_iff)

lemma has_match_iff:
  "has_match w cid rid \<longleftrightarrow> (\<exists>m\<in>set (matches w). m_couple_id m = cid \<and> m_recipe_id m = rid)"
  by (simp add: has_match_def list_ex_iff)

lemma both_liked_iff:
  "both_liked w cid rid \<longleftrightarrow>
     (\<exists>c\<in>set (couples w). c_id c = cid \<and>
        (\<exists>p. user2_id c = Some p \<and> liked w (user1_id c) rid cid \<and> liked w p rid cid))"
  by (auto simp: both_liked_def list_ex_iff split: option.splits)

lemma liked_mono: "set (swipes w) \<subseteq> set (swipes w') \<Longrightarrow> liked w u rid cid \<Longrightarrow> liked w' u rid cid"
  by (auto simp: liked_iff)

lemma both_liked_mono: "grows w w' \<Longrightarrow> both_liked w cid rid \<Longrightarrow> both_liked w' cid rid"
  unfolding both_liked_iff grows_def using liked_mono by metis

lemma grows_refl [simp]: "grows w w"
  by (simp add: grows_def)

lemma grows_trans: "grows w w' \<Longrightarrow> grows w' w'' \<Longrightarrow> grows w w''"
  by (auto simp: grows_def)

lemma grows_tick [simp]: "grows w (tick w)"
  by (simp add: grows_def)

lemma guarded_mono: "guarded p w \<Longrightarrow> grows w w' \<Longrightarrow> guarded p w'"
proof (induction p arbitrary: w w')
  case (InsertMatch cid rid fav k)
  from InsertMatch.prems have b: "both_liked w cid rid"
    and a: "\<And>r v. grows w v \<Longrightarrow> guarded (k r) v" by simp_all
  have "both_liked w' cid rid" using b InsertMatch.prems(2) by (rule both_liked_mono [rotated])
  moreover have "\<And>r v. grows w' v \<Longrightarrow> guarded (k r) v"
    using a grows_trans [OF InsertMatch.prems(2)] by blast
  ultimately show ?case by simp
next
  case (Return a) then show ?case by simp
next
  case (Log e p) then show ?case by simp
next
  case (InsertSwipe u rid cid d k)
  then show ?case by (simp, meson grows_trans)
next
  case (SelectPartnerLike p rid cid k)
  then show ?case by (simp, meson grows_trans)
next
  case (SelectMatch cid rid k)
  then show ?case by (simp, meson grows_trans)
next
  case (UpdateMatchFavorite mid fav k)
  then show ?case by (simp, meson grows_trans)
next
  case (SelectPushToken rid k)
  then show ?case by (simp, meson grows_trans)
next
  case (GatewaySend e k)
  then show ?case by (simp, meson grows_trans)
qed

subsection \<open>The conflict-free insert of the trigger\<close>

lemma imcdn_fields [simp]:
  "couples (insert_match_on_conflict_do_nothing cid rid t w) = couples w"
  "swipes (insert_match_on_conflict_do_nothing cid rid t w) = swipes w"
  "recipes (insert_match_on_conflict_do_nothing cid rid t w) = recipes w"
  "profiles (insert_match_on_conflict_do_nothing cid rid t w) = profiles w"
  "outbox (insert_match_on_conflict_do_nothing cid rid t w) = outbox w"
  "console (insert_match_on_conflict_do_nothing cid rid t w) = console w"
  by (simp_all add: insert_match_on_conflict_do_nothing_def)

lemma imcdn_has_match: "has_match (insert_match_on_conflict_do_nothing cid rid t w) cid rid"
  by (simp add: insert_match_on_conflict_do_nothing_def has_match_def)

lemma imcdn_matches:
  "matches (insert_match_on_conflict_do_nothing cid rid t w) = matches w
   \<or> (\<not> has_match w cid rid
      \<and> (\<exists>m. m_couple_id m = cid \<and> m_recipe_id m = rid
            \<and> matches (insert_match_on_conflict_do_nothing cid rid t w) = matches w @ [m]))"
  by (simp add: insert_match_on_conflict_do_nothing_def)

lemma unique_matches_append:
  "unique_matches w \<Longrightarrow> \<not> has_match w cid rid \<Longrightarrow> m_couple_id m = cid \<Longrightarrow> m_recipe_id m = rid
     \<Longrightarrow> matches w' = matches w @ [m] \<Longrightarrow> unique_matches w'"
  by (auto simp: unique_matches_def has_match_iff)

lemma imcdn_unique:
  "unique_matches w \<Longrightarrow> unique_matches (insert_match_on_conflict_do_nothing cid rid t w)"
  using imcdn_matches [of cid rid t w] unique_matches_append [of w cid rid]
  by (auto simp: unique_matches_def)


lemma imcdn_keeps:
  "set (matches w) \<subseteq> set (matches (insert_match_on_conflict_do_nothing cid rid t w))"
  using imcdn_matches [of cid rid t w] by auto

subsection \<open>The trigger\<close>

lemma trigger_sees_cong:
  "couples w' = couples w \<Longrightarrow> swipes w' = swipes w
     \<Longrightarrow> trigger_sees_partner_like s w' = trigger_sees_partner_like s w"
proof -
  assume c: "couples w' = couples w" and s: "swipes w' = swipes w"
  show ?thesis unfolding trigger_sees_partner_like_def c s ..
qed

lemma trigger_sees_cases:
  "trigger_sees_partner_like s w \<Longrightarrow>
     direction s = Like
     \<and> (\<exists>c p ps. find (\<lambda>c. c_id c = s_couple_id s) (couples w) = Some c
           \<and> (if user1_id c = user_id s then user2_id c else Some (user1_id c)) = Some p
           \<and> find (\<lambda>x. user_id x = p \<and> s_recipe_id x = s_recipe_id s
                        \<and> s_couple_id x = s_couple_id s) (swipes w) = Some ps
           \<and> direction ps = Like)"
  by (auto simp: trigger_sees_partner_like_def Let_def split: option.splits)

lemma trigger_sees_intro:
  "direction s = Like \<Longrightarrow> find (\<lambda>c. c_id c = s_couple_id s) (couples w) = Some c
     \<Longrightarrow> (if user1_id c = user_id s then user2_id c else Some (user1_id c)) = Some p
     \<Longrightarrow> find (\<lambda>x. user_id x = p \<and> s_recipe_id x = s_recipe_id s
                   \<and> s_couple_id x = s_couple_id s) (swipes w) = Some ps
     \<Longrightarrow> direction ps = Like
     \<Longrightarrow> trigger_sees_partner_like s w"
  by (simp add: trigger_sees_partner_like_def Let_def)

lemma cfm_cases:
  "(check_for_match s w = w \<and> \<not> trigger_sees_partner_like s w)
   \<or> (check_for_match s w
         = insert_match_on_conflict_do_nothing (s_couple_id s) (s_recipe_id s) (now w) w
      \<and> trigger_sees_partner_like s w)"
  by (simp add: check_for_match_def)

lemma cfm_fields [simp]:
  "couples (check_for_match s w) = couples w"
  "swipes (check_for_match s w) = swipes w"
  "recipes (check_for_match s w) = recipes w"
  "profiles (check_for_match s w) = profiles w"
  "outbox (check_for_match s w) = outbox w"
  "console (check_for_match s w) = console w"
  by (simp_all add: check_for_match_def)


lemma cfm_unique: "unique_matches w \<Longrightarrow> unique_matches (check_for_match s w)"
  using imcdn_unique [of w "s_couple_id s" "s_recipe_id s" "now w"]
  by (simp add: check_for_match_def)

lemma find_couple:
  assumes "couples_pkey w" "c \<in> set (couples w)"
  shows "find (\<lambda>x. c_id x = c_id c) (couples w) = Some c"
proof -
  obtain y where y: "find (\<lambda>x. c_id x = c_id c) (couples w) = Some y"
    using find_ex [of c "couples w" "\<lambda>x. c_id x = c_id c"] assms by auto
  then have "y \<in> set (couples w)" "c_id y = c_id c" using find_Some_in [OF y] by auto
  with assms have "y = c" unfolding couples_pkey_def by (metis distinct_map_eq)
  with y show ?thesis by simp
qed

lemma find_like:
  assumes u: "unique_swipes w" and l: "liked w p rid cid"
  shows "\<exists>ps. find (\<lambda>x. user_id x = p \<and> s_recipe_id x = rid \<and> s_couple_id x = cid) (swipes w)
           = Some ps \<and> direction ps = Like"
proof -
  from l obtain s where s: "s \<in> set (swipes w)" "user_id s = p" "s_recipe_id s = rid"
      "s_couple_id s = cid" "direction s = Like"
    by (auto simp: liked_iff)
  obtain y where y: "find (\<lambda>x. user_id x = p \<and> s_recipe_id x = rid \<and> s_couple_id x = cid)
                       (swipes w) = Some y"
    using find_ex [of s "swipes w" "\<lambda>x. user_id x = p \<and> s_recipe_id x = rid \<and> s_couple_id x = cid"] s
    by auto
  from find_Some_in [OF y] have yy: "y \<in> set (swipes w)" "user_id y = p" "s_recipe_id y = rid"
      "s_couple_id y = cid" by auto
  have "y = s"
    using u s yy unfolding unique_swipes_def
    by (intro distinct_map_eq [of "\<lambda>s. (user_id s, s_recipe_id s, s_couple_id s)" "swipes w"]) auto
  with y s show ?thesis by simp
qed

text \<open>
  When both users of a complete couple have a like on the recipe among the rows the trigger
  is shown, the trigger reaches its insert.
\<close>

lemma trigger_complete:
  assumes pk: "couples_pkey w" and us: "unique_swipes w"
    and dir: "direction s = Like"
    and c: "c \<in> set (couples w)" "c_id c = s_couple_id s" "user2_id c = Some q"
    and who: "user_id s = user1_id c \<or> user_id s = q"
    and l1: "liked w (user1_id c) (s_recipe_id s) (s_couple_id s)"
    and l2: "liked w q (s_recipe_id s) (s_couple_id s)"
  shows "trigger_sees_partner_like s w"
proof -
  have f: "find (\<lambda>x. c_id x = s_couple_id s) (couples w) = Some c"
    using find_couple [OF pk c(1)] c(2) by simp
  define p where "p = (if user1_id c = user_id s then q else user1_id c)"
  have pp: "(if user1_id c = user_id s then user2_id c else Some (user1_id c)) = Some p"
    by (simp add: p_def c(3))
  have "liked w p (s_recipe_id s) (s_couple_id s)"
    using l1 l2 by (simp add: p_def)
  from find_like [OF us this] obtain ps where
    ps: "find (\<lambda>x. user_id x = p \<and> s_recipe_id x = s_recipe_id s
                   \<and> s_couple_id x = s_couple_id s) (swipes w) = Some ps" "direction ps = Like"
    by blast
  show ?thesis using trigger_sees_intro [OF dir f pp ps] .
qed

lemma cfm_completes:
  assumes "couples_pkey w" "unique_swipes w" "direction s = Like"
    and "c \<in> set (couples w)" "c_id c = s_couple_id s" "user2_id c = Some q"
    and "user_id s = user1_id c \<or> user_id s = q"
    and "liked w (user1_id c) (s_recipe_id s) (s_couple_id s)"
    and "liked w q (s_recipe_id s) (s_couple_id s)"
  shows "has_match (check_for_match s w) (s_couple_id s) (s_recipe_id s)"
  using trigger_complete [OF assms] imcdn_has_match by (simp add: check_for_match_def)

text \<open>
  When the trigger reaches its insert for the row of a member, the couple is complete and
  both its users have a like on the recipe among the rows the trigger is shown.
\<close>

lemma trigger_justified:
  assumes pk: "couples_pkey w" and mem: "member w (user_id s) (s_couple_id s)"
    and own: "liked w (user_id s) (s_recipe_id s) (s_couple_id s)"
    and sees: "trigger_sees_partner_like s w"
  shows "both_liked w (s_couple_id s) (s_recipe_id s)"
proof -
  from trigger_sees_cases [OF sees] obtain c p ps where
    f: "find (\<lambda>c. c_id c = s_couple_id s) (couples w) = Some c"
    and pp: "(if user1_id c = user_id s then user2_id c else Some (user1_id c)) = Some p"
    and ps: "find (\<lambda>x. user_id x = p \<and> s_recipe_id x = s_recipe_id s
                   \<and> s_couple_id x = s_couple_id s) (swipes w) = Some ps" "direction ps = Like"
    by auto
  from find_Some_in [OF f] have c: "c \<in> set (couples w)" "c_id c = s_couple_id s" by auto
  from find_Some_in [OF ps(1)] ps(2) have lp: "liked w p (s_recipe_id s) (s_couple_id s)"
    by (auto simp: liked_iff)
  from mem obtain c' where c': "c' \<in> set (couples w)" "c_id c' = s_couple_id s"
      "user1_id c' = user_id s \<or> user2_id c' = Some (user_id s)"
    by (auto simp: member_iff)
  have "c' = c" using pk c c' unfolding couples_pkey_def by (metis distinct_map_eq)
  with c' have m: "user1_id c = user_id s \<or> user2_id c = Some (user_id s)" by simp
  have "\<exists>q. user2_id c = Some q \<and> liked w (user1_id c) (s_recipe_id s) (s_couple_id s)
              \<and> liked w q (s_recipe_id s) (s_couple_id s)"
  proof (cases "user1_id c = user_id s")
    case True
    with pp have "user2_id c = Some p" by simp
    with True own lp show ?thesis by auto
  next
    case False
    with pp have "p = user1_id c" by simp
    moreover from False m have "user2_id c = Some (user_id s)" by simp
    ultimately show ?thesis using own lp by auto
  qed
  with c show ?thesis by (auto simp: both_liked_iff)
qed

subsection \<open>The invariants, statement by statement\<close>

lemma store_sound_cong:
  "couples w' = couples w \<Longrightarrow> swipes w' = swipes w \<Longrightarrow> matches w' = matches w
     \<Longrightarrow> store_sound w' = store_sound w"
  by (simp add: store_sound_def couples_pkey_def unique_swipes_def unique_matches_def)

lemma ledger_cong:
  "couples w' = couples w \<Longrightarrow> recipes w' = recipes w \<Longrightarrow> swipes w' = swipes w
     \<Longrightarrow> swipes_by_members w' = swipes_by_members w
         \<and> swipes_on_recipes w' = swipes_on_recipes w"
  by (simp add: swipes_by_members_def swipes_on_recipes_def member_cong [of w' w])

lemma matches_justified_cong:
  "couples w' = couples w \<Longrightarrow> swipes w' = swipes w \<Longrightarrow> matches w' = matches w
     \<Longrightarrow> matches_justified w' = matches_justified w"
  by (simp add: matches_justified_def both_liked_cong [of w' w])

lemma tick_sound [simp]: "store_sound (tick w) = store_sound w"
  by (rule store_sound_cong) simp_all

lemma tick_justified [simp]: "matches_justified (tick w) = matches_justified w"
  by (rule matches_justified_cong) simp_all

lemma tick_ledger [simp]:
  "swipes_by_members (tick w) = swipes_by_members w"
  "swipes_on_recipes (tick w) = swipes_on_recipes w"
  using ledger_cong [of "tick w" w] by simp_all

lemma put_log_sound [simp]: "store_sound (put_log e w) = store_sound w"
  by (rule store_sound_cong) simp_all

lemma put_log_justified [simp]: "matches_justified (put_log e w) = matches_justified w"
  by (rule matches_justified_cong) simp_all

lemma put_log_ledger [simp]:
  "swipes_by_members (put_log e w) = swipes_by_members w"
  "swipes_on_recipes (put_log e w) = swipes_on_recipes w"
  using ledger_cong [of "put_log e w" w] by simp_all

lemma grows_put_log [simp]: "grows w (put_log e w)"
  by (simp add: grows_def)

lemma matches_justified_iff:
  "matches_justified w \<longleftrightarrow> (\<forall>m\<in>set (matches w). both_liked w (m_couple_id m) (m_recipe_id m))"
  by (simp add: matches_justified_def list_all_iff)

lemma answer_cases:
  "answer f stmt w = (r, w') \<Longrightarrow>
     (f = Respond \<and> stmt (tick w) = (r, w')) \<or> ((\<forall>x. r \<noteq> Data x) \<and> w' = tick w)"
  by (cases f) (auto simp: answer_def)

subsubsection \<open>Inserting a swipe\<close>


text \<open>
  What a committed swipe row does to the store, with or without the match row of its
  trigger.
\<close>

lemma add_swipe_sound:
  assumes snd: "store_sound w"
    and fresh: "\<not> list_ex (\<lambda>s. user_id s = user_id new \<and> s_recipe_id s = s_recipe_id new
                                 \<and> s_couple_id s = s_couple_id new) (swipes w)"
    and f1: "couples w1 = couples w" "swipes w1 = swipes w @ [new]" "matches w1 = matches w"
            "recipes w1 = recipes w" "outbox w1 = outbox w"
    and w': "w' = (if b then insert_match_on_conflict_do_nothing (s_couple_id new)
                               (s_recipe_id new) t w1 else w1)"
  shows "store_sound w'" and "grows w w'" and "outbox w' = outbox w"
    and "swipes w' = swipes w @ [new]" and "couples w' = couples w" and "recipes w' = recipes w"
    and "direction new = Like \<Longrightarrow> liked w' (user_id new) (s_recipe_id new) (s_couple_id new)"
    and "member w (user_id new) (s_couple_id new) \<Longrightarrow> swipes_by_members w
           \<Longrightarrow> swipes_by_members w'"
    and "s_recipe_id new \<in> set (recipes w) \<Longrightarrow> swipes_on_recipes w \<Longrightarrow> swipes_on_recipes w'"
    and "(b \<Longrightarrow> both_liked w1 (s_couple_id new) (s_recipe_id new)) \<Longrightarrow> matches_justified w
           \<Longrightarrow> matches_justified w'"
    and "set (matches w) \<subseteq> set (matches w')"
    and "b \<Longrightarrow> has_match w' (s_couple_id new) (s_recipe_id new)"
    and "\<not> b \<Longrightarrow> matches w' = matches w"
proof -
  from snd have pk: "couples_pkey w" and us: "unique_swipes w" and um: "unique_matches w"
    by (simp_all add: store_sound_def)
  show f': "swipes w' = swipes w @ [new]" "couples w' = couples w" "recipes w' = recipes w"
      "outbox w' = outbox w"
    by (simp_all add: w' f1)
  have us1: "unique_swipes w'"
    using us fresh by (auto simp: unique_swipes_def f' list_ex_iff)
  have um1: "unique_matches w1" using um by (simp add: unique_matches_def f1)
  have um': "unique_matches w'"
    using um1 imcdn_unique [OF um1] by (simp add: w')
  show "store_sound w'"
    using pk us1 um' by (simp add: store_sound_def couples_pkey_def f')
  show g: "grows w w'" by (auto simp: grows_def f')
  show "liked w' (user_id new) (s_recipe_id new) (s_couple_id new)" if "direction new = Like"
    using that by (auto simp: liked_iff f')
  show "swipes_by_members w'" if "member w (user_id new) (s_couple_id new)" "swipes_by_members w"
    using that member_cong [of w' w] by (simp add: swipes_by_members_def f')
  show "swipes_on_recipes w'" if "s_recipe_id new \<in> set (recipes w)" "swipes_on_recipes w"
    using that by (simp add: swipes_on_recipes_def f')
  show keep: "set (matches w) \<subseteq> set (matches w')"
    using imcdn_keeps [of w1 "s_couple_id new" "s_recipe_id new" t] by (auto simp: w' f1)
  show "has_match w' (s_couple_id new) (s_recipe_id new)" if b
    using that imcdn_has_match by (simp add: w')
  show "matches w' = matches w" if "\<not> b"
    using that by (simp add: w' f1)
  have bl: "both_liked w' = both_liked w1"
    by (rule both_liked_cong) (simp_all add: f' f1)
  show "matches_justified w'"
    if j: "b \<Longrightarrow> both_liked w1 (s_couple_id new) (s_recipe_id new)" and mj: "matches_justified w"
    unfolding matches_justified_iff
  proof
    fix m assume m: "m \<in> set (matches w')"
    show "both_liked w' (m_couple_id m) (m_recipe_id m)"
    proof (cases "m \<in> set (matches w)")
      case True
      with mj have "both_liked w (m_couple_id m) (m_recipe_id m)"
        by (simp add: matches_justified_iff)
      then show ?thesis using both_liked_mono [OF g] by blast
    next
      case False
      with m have b: b by (auto simp: w' f1 split: if_splits)
      with m False imcdn_matches [of "s_couple_id new" "s_recipe_id new" t w1]
      have "m_couple_id m = s_couple_id new \<and> m_recipe_id m = s_recipe_id new"
        by (auto simp: w' f1)
      with j [OF b] show ?thesis by (simp add: bl)
    qed
  qed
qed

lemma insert_swipe_cases:
  "insert_swipe uid u rid cid d w = (r, w') \<Longrightarrow>
     ((\<exists>e. r = Error e) \<and> w' = w)
     \<or> (\<exists>new. r = Data new \<and> uid = u \<and> member w u cid
          \<and> \<not> list_ex (\<lambda>s. user_id s = u \<and> s_recipe_id s = rid \<and> s_couple_id s = cid) (swipes w)
          \<and> rid \<in> set (recipes w)
          \<and> user_id new = u \<and> s_recipe_id new = rid \<and> s_couple_id new = cid \<and> direction new = d
          \<and> w' = check_for_match new
                   (w\<lparr>swipes := swipes w @ [new], next_uuid := Suc (next_uuid w)\<rparr>))"
  by (auto simp: insert_swipe_def Let_def split: if_splits)

lemma insert_swipe_sound:
  assumes snd: "store_sound w" and ins: "insert_swipe uid u rid cid d w = (r, w')"
  shows "store_sound w' \<and> grows w w' \<and> outbox w' = outbox w
         \<and> (\<forall>s. r = Data s \<longrightarrow> d = Like \<longrightarrow> liked w' u rid cid)
         \<and> (swipes_by_members w \<longrightarrow> swipes_by_members w')
         \<and> (swipes_on_recipes w \<longrightarrow> swipes_on_recipes w')
         \<and> (matches_justified w \<longrightarrow> matches_justified w')"
  using insert_swipe_cases [OF ins]
proof (elim disjE conjE exE)
  fix e assume "r = Error e" "w' = w"
  with snd show ?thesis by simp
next
  fix new
  assume r: "r = Data new" and mem: "member w u cid"
    and fresh: "\<not> list_ex (\<lambda>s. user_id s = u \<and> s_recipe_id s = rid \<and> s_couple_id s = cid) (swipes w)"
    and fk: "rid \<in> set (recipes w)"
    and new: "user_id new = u" "s_recipe_id new = rid" "s_couple_id new = cid" "direction new = d"
    and w': "w' = check_for_match new (w\<lparr>swipes := swipes w @ [new], next_uuid := Suc (next_uuid w)\<rparr>)"
  define w1 where "w1 = w\<lparr>swipes := swipes w @ [new], next_uuid := Suc (next_uuid w)\<rparr>"
  have f1: "couples w1 = couples w" "swipes w1 = swipes w @ [new]" "matches w1 = matches w"
      "recipes w1 = recipes w" "outbox w1 = outbox w"
    by (simp_all add: w1_def)
  have w'1: "w' = (if trigger_sees_partner_like new w1
                   then insert_match_on_conflict_do_nothing (s_couple_id new) (s_recipe_id new)
                          (now w1) w1 else w1)"
    by (simp add: w' w1_def check_for_match_def)
  have fresh': "\<not> list_ex (\<lambda>s. user_id s = user_id new \<and> s_recipe_id s = s_recipe_id new
                                 \<and> s_couple_id s = s_couple_id new) (swipes w)"
    using fresh new by simp
  note a = add_swipe_sound [OF snd fresh' f1 w'1]
  have pk1: "couples_pkey w1" using snd by (simp add: store_sound_def couples_pkey_def f1)
  have mem1: "member w1 (user_id new) (s_couple_id new)"
    using mem new member_cong [of w1 w] by (simp add: f1)
  have j: "both_liked w1 (s_couple_id new) (s_recipe_id new)" if s: "trigger_sees_partner_like new w1"
  proof -
    from trigger_sees_cases [OF s] have "direction new = Like" by simp
    then have "liked w1 (user_id new) (s_recipe_id new) (s_couple_id new)"
      by (auto simp: liked_iff f1)
    from trigger_justified [OF pk1 mem1 this s] show ?thesis .
  qed
  show ?thesis
    using a(1,2,3) a(7) a(8) [OF _] a(9) a(10) [OF j] mem fk new r by auto
qed

text \<open>The statement of a swipe transaction, and its commit.\<close>

lemma begin_insert_swipe_cases:
  "begin_insert_swipe uid u rid cid d w = (x, w') \<Longrightarrow>
     ((\<exists>e. x = Inl e) \<and> w' = w)
     \<or> (\<exists>t. x = Inr t \<and> uid = u \<and> member w u cid \<and> rid \<in> set (recipes w)
          \<and> \<not> list_ex (\<lambda>s. user_id s = u \<and> s_recipe_id s = rid \<and> s_couple_id s = cid) (swipes w)
          \<and> user_id (txn_row t) = u \<and> s_recipe_id (txn_row t) = rid
          \<and> s_couple_id (txn_row t) = cid \<and> direction (txn_row t) = d
          \<and> txn_match t
              = trigger_sees_partner_like (txn_row t) (w\<lparr>swipes := swipes w @ [txn_row t]\<rparr>)
          \<and> w' = w\<lparr>next_uuid := Suc (next_uuid w)\<rparr>)"
  by (auto simp: begin_insert_swipe_def Let_def split: if_splits)

lemma commit_insert_swipe_cases:
  "commit_insert_swipe t w = (r, w') \<Longrightarrow>
     (r = Error UniqueViolation \<and> w' = w)
     \<or> (r = Data (txn_row t)
         \<and> \<not> list_ex (\<lambda>s. user_id s = user_id (txn_row t) \<and> s_recipe_id s = s_recipe_id (txn_row t)
                            \<and> s_couple_id s = s_couple_id (txn_row t)) (swipes w)
         \<and> w' = (if txn_match t
                  then insert_match_on_conflict_do_nothing (s_couple_id (txn_row t))
                         (s_recipe_id (txn_row t)) (s_created_at (txn_row t))
                         (w\<lparr>swipes := swipes w @ [txn_row t]\<rparr>)
                  else w\<lparr>swipes := swipes w @ [txn_row t]\<rparr>))"
  by (auto simp: commit_insert_swipe_def Let_def split: if_splits)

text \<open>
  With nothing between the statement and the commit, the two steps are the insert as one
  statement.
\<close>

lemma insert_swipe_two_phase:
  "insert_swipe uid u rid cid d w =
     (case begin_insert_swipe uid u rid cid d w of
        (Inl e, w') \<Rightarrow> (Error e, w')
      | (Inr t, w') \<Rightarrow> commit_insert_swipe t w')"
proof -
  have t: "trigger_sees_partner_like s (w\<lparr>next_uuid := n, swipes := xs\<rparr>)
             = trigger_sees_partner_like s (w\<lparr>swipes := xs\<rparr>)" for s xs n
    by (rule trigger_sees_cong) simp_all
  have e: "v\<lparr>swipes := xs, next_uuid := n\<rparr> = v\<lparr>next_uuid := n, swipes := xs\<rparr>"
    for v :: world and xs n
    by (cases v) simp
  show ?thesis
    by (simp add: insert_swipe_def begin_insert_swipe_def commit_insert_swipe_def Let_def
          check_for_match_def t e)
qed

lemma commit_insert_swipe_sound:
  assumes snd: "store_sound w" and c: "commit_insert_swipe t w = (r, w')"
  shows "store_sound w' \<and> grows w w' \<and> outbox w' = outbox w
         \<and> (\<forall>s. r = Data s \<longrightarrow> s = txn_row t \<and> swipes w' = swipes w @ [txn_row t])
         \<and> ((\<forall>s. r \<noteq> Data s) \<longrightarrow> w' = w)
         \<and> (\<forall>s. r = Data s \<longrightarrow> direction (txn_row t) = Like \<longrightarrow>
               liked w' (user_id (txn_row t)) (s_recipe_id (txn_row t)) (s_couple_id (txn_row t)))
         \<and> (member w (user_id (txn_row t)) (s_couple_id (txn_row t)) \<longrightarrow>
               swipes_by_members w \<longrightarrow> swipes_by_members w')
         \<and> (s_recipe_id (txn_row t) \<in> set (recipes w) \<longrightarrow>
               swipes_on_recipes w \<longrightarrow> swipes_on_recipes w')
         \<and> ((txn_match t \<longrightarrow>
               both_liked (w\<lparr>swipes := swipes w @ [txn_row t]\<rparr>) (s_couple_id (txn_row t))
                 (s_recipe_id (txn_row t)))
              \<longrightarrow> matches_justified w \<longrightarrow> matches_justified w')
         \<and> set (matches w) \<subseteq> set (matches w')
         \<and> (\<forall>s. r = Data s \<longrightarrow> txn_match t \<longrightarrow>
               has_match w' (s_couple_id (txn_row t)) (s_recipe_id (txn_row t)))
         \<and> (\<not> txn_match t \<longrightarrow> matches w' = matches w)"
  using commit_insert_swipe_cases [OF c]
proof (elim disjE conjE)
  assume "r = Error UniqueViolation" "w' = w"
  with snd show ?thesis by simp
next
  let ?new = "txn_row t"
  let ?w1 = "w\<lparr>swipes := swipes w @ [?new]\<rparr>"
  assume r: "r = Data ?new"
    and fresh: "\<not> list_ex (\<lambda>s. user_id s = user_id ?new \<and> s_recipe_id s = s_recipe_id ?new
                            \<and> s_couple_id s = s_couple_id ?new) (swipes w)"
    and w': "w' = (if txn_match t
                  then insert_match_on_conflict_do_nothing (s_couple_id ?new)
                         (s_recipe_id ?new) (s_created_at ?new) ?w1
                  else ?w1)"
  have f1: "couples ?w1 = couples w" "swipes ?w1 = swipes w @ [?new]" "matches ?w1 = matches w"
      "recipes ?w1 = recipes w" "outbox ?w1 = outbox w"
    by simp_all
  note a = add_swipe_sound [OF snd fresh f1 w']
  show ?thesis
    using a(1,2,3,4) a(7) a(8) a(9) a(10) a(11) a(12) a(13) r by auto
qed

subsubsection \<open>Inserting a match\<close>

lemma insert_match_cases:
  "insert_match uid cid rid fav w = (r, w') \<Longrightarrow>
     ((\<exists>e. r = Error e) \<and> w' = w)
     \<or> (\<exists>m. r = Data m \<and> member w uid cid \<and> \<not> has_match w cid rid
          \<and> m_couple_id m = cid \<and> m_recipe_id m = rid
          \<and> w' = w\<lparr>matches := matches w @ [m], next_uuid := Suc (next_uuid w)\<rparr>)"
  by (auto simp: insert_match_def Let_def split: if_splits)

lemma insert_match_sound:
  assumes snd: "store_sound w" and ins: "insert_match uid cid rid fav w = (r, w')"
  shows "store_sound w' \<and> grows w w' \<and> outbox w' = outbox w
         \<and> couples w' = couples w \<and> recipes w' = recipes w \<and> swipes w' = swipes w
         \<and> set (matches w) \<subseteq> set (matches w')
         \<and> (both_liked w cid rid \<longrightarrow> matches_justified w \<longrightarrow> matches_justified w')"
  using insert_match_cases [OF ins]
proof (elim disjE conjE exE)
  fix e assume "r = Error e" "w' = w"
  with snd show ?thesis by simp
next
  fix m
  assume no: "\<not> has_match w cid rid" and key: "m_couple_id m = cid" "m_recipe_id m = rid"
    and w': "w' = w\<lparr>matches := matches w @ [m], next_uuid := Suc (next_uuid w)\<rparr>"
  have f': "couples w' = couples w" "swipes w' = swipes w" "matches w' = matches w @ [m]"
      "outbox w' = outbox w" "recipes w' = recipes w"
    by (simp_all add: w')
  have bl: "both_liked w' = both_liked w" by (rule both_liked_cong) (simp_all add: f')
  have 3: "unique_matches w'"
    using snd unique_matches_append [OF _ no key f'(3)] by (simp add: store_sound_def)
  have "store_sound w'"
    using snd 3
    by (simp add: store_sound_def couples_pkey_def unique_swipes_def f')
  moreover have "matches_justified w'" if "both_liked w cid rid" "matches_justified w"
    using that key by (auto simp: matches_justified_iff f' bl)
  ultimately show ?thesis by (auto simp: grows_def f')
qed

subsubsection \<open>Toggling a favourite\<close>

lemma update_match_favorite_sound:
  assumes snd: "store_sound w" and upd: "update_match_favorite uid mid fav w = (r, w')"
  shows "store_sound w' \<and> grows w w' \<and> outbox w' = outbox w
         \<and> couples w' = couples w \<and> recipes w' = recipes w \<and> swipes w' = swipes w
         \<and> has_match w' = has_match w
         \<and> (matches_justified w \<longrightarrow> matches_justified w')"
proof -
  define f :: "Match \<Rightarrow> Match" where "f = (\<lambda>m. if m_id m = mid \<and> member w uid (m_couple_id m)
                     then m\<lparr>is_favorite := fav, updated_at := now w\<rparr> else m)"
  have w': "w' = w\<lparr>matches := map f (matches w)\<rparr>"
    using upd by (auto simp: update_match_favorite_def f_def)
  have f': "couples w' = couples w" "swipes w' = swipes w" "matches w' = map f (matches w)"
      "outbox w' = outbox w" "recipes w' = recipes w"
    by (simp_all add: w')
  have k: "m_couple_id (f m) = m_couple_id m" "m_recipe_id (f m) = m_recipe_id m" for m
    by (simp_all add: f_def)
  have keys: "map (\<lambda>m. (m_couple_id m, m_recipe_id m)) (matches w')
                = map (\<lambda>m. (m_couple_id m, m_recipe_id m)) (matches w)"
    by (simp add: f' k comp_def)
  have hm: "has_match w' c x = has_match w c x" for c x
  proof -
    have "has_match v c x \<longleftrightarrow> (c, x) \<in> set (map (\<lambda>m. (m_couple_id m, m_recipe_id m)) (matches v))"
      for v by (auto simp: has_match_iff)
    then show ?thesis by (simp only: keys)
  qed
  have bl: "both_liked w' = both_liked w" by (rule both_liked_cong) (simp_all add: f')
  have "store_sound w'"
    using snd keys
    by (simp add: store_sound_def couples_pkey_def unique_swipes_def unique_matches_def f'(1,2))
  moreover have "matches_justified w'" if "matches_justified w"
    using that by (auto simp: matches_justified_iff f' bl k)
  moreover have "has_match w' = has_match w" using hm by (simp add: fun_eq_iff)
  ultimately show ?thesis by (simp add: grows_def f')
qed

lemma select_world [simp]:
  "snd (select_partner_like uid p rid cid w) = w"
  "snd (select_match uid cid rid w) = w"
  "snd (select_push_token uid rid' w) = w"
  by (simp_all add: select_partner_like_def select_match_def select_push_token_def)

lemma select_partner_like_found:
  "select_partner_like uid p rid cid w = (Data (Some s), w') \<Longrightarrow> liked w p rid cid"
proof -
  assume a: "select_partner_like uid p rid cid w = (Data (Some s), w')"
  let ?rows = "filter (\<lambda>s. member w uid (s_couple_id s) \<and> user_id s = p \<and> s_recipe_id s = rid
                      \<and> s_couple_id s = cid \<and> direction s = Like) (swipes w)"
  from a have "maybeSingle ?rows = Data (Some s)" by (auto simp: select_partner_like_def)
  then have "?rows = [s]"
    by (auto simp: maybeSingle_def split: list.splits)
  then have "s \<in> set ?rows" by simp
  then show ?thesis by (auto simp: liked_iff)
qed

subsection \<open>One step of any client program\<close>

lemma perform_sound:
  assumes snd: "store_sound w" and st: "perform uid f p w = (p', w')"
  shows "store_sound w' \<and> grows w w'
         \<and> (swipes_by_members w \<longrightarrow> swipes_by_members w')
         \<and> (swipes_on_recipes w \<longrightarrow> swipes_on_recipes w')
         \<and> (guarded p w \<longrightarrow> matches_justified w \<longrightarrow> guarded p' w' \<and> matches_justified w')"
proof (cases p)
  case (Return a)
  with st snd show ?thesis by auto
next
  case (Log e q)
  with st snd show ?thesis by (auto intro: guarded_mono)
next
  case (InsertSwipe u rid cid d k)
  with st obtain r where a: "answer f (insert_swipe uid u rid cid d) w = (r, w')" and p': "p' = k r"
    by (auto split: prod.splits)
  from answer_cases [OF a] show ?thesis
  proof (elim disjE conjE exE)
    assume "insert_swipe uid u rid cid d (tick w) = (r, w')"
    from insert_swipe_sound [OF _ this] snd
    have s: "store_sound w'" "grows (tick w) w'"
        "\<forall>s. r = Data s \<longrightarrow> d = Like \<longrightarrow> liked w' u rid cid"
        "swipes_by_members w \<longrightarrow> swipes_by_members w'"
        "swipes_on_recipes w \<longrightarrow> swipes_on_recipes w'"
        "matches_justified w \<longrightarrow> matches_justified w'"
      by simp_all
    have g: "grows w w'" using grows_trans [OF grows_tick s(2)] .
    with s show ?thesis by (auto simp: InsertSwipe p')
  next
    assume "\<forall>x. r \<noteq> Data x" "w' = tick w"
    with snd show ?thesis by (auto simp: InsertSwipe p')
  qed
next
  case (SelectPartnerLike q rid cid k)
  with st obtain r where a: "answer f (select_partner_like uid q rid cid) w = (r, w')"
      and p': "p' = k r"
    by (auto split: prod.splits)
  from answer_cases [OF a] show ?thesis
  proof (elim disjE conjE exE)
    assume s: "select_partner_like uid q rid cid (tick w) = (r, w')"
    then have w': "w' = tick w" using select_world(1) [of uid q rid cid "tick w"] by simp
    have "\<forall>s. r = Data (Some s) \<longrightarrow> liked w' q rid cid"
      using select_partner_like_found s w' by (metis liked_cong tick_fields(2))
    with snd w' show ?thesis by (auto simp: SelectPartnerLike p')
  next
    assume "\<forall>x. r \<noteq> Data x" "w' = tick w"
    with snd show ?thesis by (auto simp: SelectPartnerLike p')
  qed
next
  case (SelectMatch cid rid k)
  with st obtain r where a: "answer f (select_match uid cid rid) w = (r, w')" and p': "p' = k r"
    by (auto split: prod.splits)
  from answer_cases [OF a] have "w' = tick w"
    using select_world(2) [of uid cid rid "tick w"] by (elim disjE conjE) simp_all
  with snd show ?thesis by (auto simp: SelectMatch p')
next
  case (InsertMatch cid rid fav k)
  with st obtain r where a: "answer f (insert_match uid cid rid fav) w = (r, w')" and p': "p' = k r"
    by (auto split: prod.splits)
  from answer_cases [OF a] show ?thesis
  proof (elim disjE conjE exE)
    assume "insert_match uid cid rid fav (tick w) = (r, w')"
    from insert_match_sound [OF _ this] snd
    have s: "store_sound w'" "grows (tick w) w'"
        "couples w' = couples (tick w)" "recipes w' = recipes (tick w)" "swipes w' = swipes (tick w)"
        "both_liked (tick w) cid rid \<longrightarrow> matches_justified w \<longrightarrow> matches_justified w'"
      by simp_all
    have g: "grows w w'" using grows_trans [OF grows_tick s(2)] .
    have "both_liked (tick w) = both_liked w" by (rule both_liked_cong) simp_all
    moreover have "swipes_by_members w' = swipes_by_members w \<and> swipes_on_recipes w' = swipes_on_recipes w"
      using s(3,4,5) by (intro ledger_cong) simp_all
    ultimately show ?thesis using s g by (auto simp: InsertMatch p')
  next
    assume "\<forall>x. r \<noteq> Data x" "w' = tick w"
    with snd show ?thesis by (auto simp: InsertMatch p')
  qed
next
  case (UpdateMatchFavorite mid fav k)
  with st obtain r where a: "answer f (update_match_favorite uid mid fav) w = (r, w')"
      and p': "p' = k r"
    by (auto split: prod.splits)
  from answer_cases [OF a] show ?thesis
  proof (elim disjE conjE exE)
    assume "update_match_favorite uid mid fav (tick w) = (r, w')"
    from update_match_favorite_sound [OF _ this] snd
    have s: "store_sound w'" "grows (tick w) w'"
        "couples w' = couples (tick w)" "recipes w' = recipes (tick w)" "swipes w' = swipes (tick w)"
        "matches_justified w \<longrightarrow> matches_justified w'"
      by simp_all
    have g: "grows w w'" using grows_trans [OF grows_tick s(2)] .
    moreover have "swipes_by_members w' = swipes_by_members w \<and> swipes_on_recipes w' = swipes_on_recipes w"
      using s(3,4,5) by (intro ledger_cong) simp_all
    ultimately show ?thesis using s by (auto simp: UpdateMatchFavorite p')
  next
    assume "\<forall>x. r \<noteq> Data x" "w' = tick w"
    with snd show ?thesis by (auto simp: UpdateMatchFavorite p')
  qed
next
  case (SelectPushToken rid k)
  with st obtain r where a: "answer f (select_push_token uid rid) w = (r, w')" and p': "p' = k r"
    by (auto split: prod.splits)
  from answer_cases [OF a] have "w' = tick w"
    using select_world(3) [of uid rid "tick w"] by (elim disjE conjE) simp_all
  with snd show ?thesis by (auto simp: SelectPushToken p')
next
  case (GatewaySend e k)
  with st obtain r where p': "p' = k r" and w': "w' = w\<lparr>outbox := outbox w @ [e]\<rparr>"
    by (auto simp: gateway_send_def split: prod.splits)
  have g: "grows w w'" by (simp add: grows_def w')
  have "store_sound w' = store_sound w" by (rule store_sound_cong) (simp_all add: w')
  moreover have "matches_justified w' = matches_justified w"
    by (rule matches_justified_cong) (simp_all add: w')
  moreover have "swipes_by_members w' = swipes_by_members w \<and> swipes_on_recipes w' = swipes_on_recipes w"
    by (rule ledger_cong) (simp_all add: w')
  ultimately show ?thesis using snd g by (auto simp: GatewaySend p')
qed

subsection \<open>The client programs are guarded\<close>

lemma guarded_toggleFavorite: "guarded (toggleFavorite st mid) w"
  by (auto simp: toggleFavorite_def toggleFavorite_catch_def Let_def
        split: option.splits reply.splits)

lemma guarded_catch [simp]: "guarded (recordSwipe_catch e) w"
  by (simp add: recordSwipe_catch_def)

lemma liked_grows: "grows w v \<Longrightarrow> liked w u rid cid \<Longrightarrow> liked v u rid cid"
  by (auto simp: grows_def intro: liked_mono)

lemma guarded_recordSwipe_gen:
  assumes ok: "\<And>p v. partnerId opts = Some p \<Longrightarrow> grows w v
                 \<Longrightarrow> liked v (userId opts) rid (coupleId opts)
                 \<Longrightarrow> liked v p rid (coupleId opts) \<Longrightarrow> both_liked v (coupleId opts) rid"
  shows "guarded (recordSwipe opts rid d) w"
  unfolding recordSwipe_def recordSwipe_catch_def
  apply (clarsimp split: reply.splits option.splits)
  apply (intro conjI allI impI)
  apply (auto intro!: ok intro: grows_trans liked_grows)
   apply (metis direction.exhaust)+
  done

lemma getCurrentUserCouple_Some:
  "getCurrentUserCouple w uid = Some c \<Longrightarrow>
     c \<in> set (couples w) \<and> (user1_id c = uid \<or> user2_id c = Some uid)"
proof -
  assume a: "getCurrentUserCouple w uid = Some c"
  let ?rows = "filter (\<lambda>c. user1_id c = uid \<or> user2_id c = Some uid) (couples w)"
  from a have "?rows = [c]"
    by (auto simp: getCurrentUserCouple_def single_def split: list.splits reply.splits)
  then have "c \<in> set ?rows" by simp
  then show ?thesis by auto
qed

lemma guarded_recordSwipe:
  assumes c: "c \<in> set (couples w)" and m: "user1_id c = uid \<or> user2_id c = Some uid"
  shows "guarded (recordSwipe (swipeScreen_options uid c) rid d) w"
proof (rule guarded_recordSwipe_gen)
  fix p v
  assume p: "partnerId (swipeScreen_options uid c) = Some p" and g: "grows w v"
    and own: "liked v (userId (swipeScreen_options uid c)) rid (coupleId (swipeScreen_options uid c))"
    and pl: "liked v p rid (coupleId (swipeScreen_options uid c))"
  from g c have c3: "c \<in> set (couples v)" by (simp add: grows_def)
  have "\<exists>q. user2_id c = Some q \<and> liked v (user1_id c) rid (c_id c) \<and> liked v q rid (c_id c)"
  proof (cases "user1_id c = uid")
    case True
    with p own pl show ?thesis by (auto simp: swipeScreen_options_def)
  next
    case False
    with p m own pl show ?thesis by (auto simp: swipeScreen_options_def)
  qed
  with c3 show "both_liked v (coupleId (swipeScreen_options uid c)) rid"
    by (auto simp: both_liked_iff swipeScreen_options_def)
qed
subsection \<open>The system\<close>

lemma advance_other:
  "\<not> (\<exists>u rid cid d k. p = InsertSwipe u rid cid d k) \<Longrightarrow>
     advance uid f (SwipeTask p) w = (case perform uid f p w of (p', w') \<Rightarrow> (SwipeTask p', w'))"
  by (cases p) auto

lemma advance_begin_cases:
  assumes a: "advance uid f (SwipeTask (InsertSwipe u rid cid d k)) w = (t', w')"
  shows "(\<exists>r. (\<forall>s. r \<noteq> Data s) \<and> t' = SwipeTask (k r) \<and> w' = tick w)
       \<or> (\<exists>t. f = Respond \<and> t' = SwipeCommit t k \<and> uid = u \<and> member w u cid
             \<and> rid \<in> set (recipes w)
             \<and> \<not> list_ex (\<lambda>s. user_id s = u \<and> s_recipe_id s = rid \<and> s_couple_id s = cid)
                    (swipes w)
             \<and> user_id (txn_row t) = u \<and> s_recipe_id (txn_row t) = rid
             \<and> s_couple_id (txn_row t) = cid \<and> direction (txn_row t) = d
             \<and> txn_match t = trigger_sees_partner_like (txn_row t)
                               ((tick w)\<lparr>swipes := swipes w @ [txn_row t]\<rparr>)
             \<and> w' = (tick w)\<lparr>next_uuid := Suc (next_uuid w)\<rparr>)"
proof (cases f)
  case Respond
  obtain x v where b: "begin_insert_swipe uid u rid cid d (tick w) = (x, v)"
    by (cases "begin_insert_swipe uid u rid cid d (tick w)")
  from begin_insert_swipe_cases [OF b] show ?thesis
  proof (elim disjE conjE exE)
    fix e assume "x = Inl e" "v = tick w"
    with a b Respond show ?thesis by auto
  next
    fix t assume "x = Inr t" "v = (tick w)\<lparr>next_uuid := Suc (next_uuid (tick w))\<rparr>"
      "uid = u" "member (tick w) u cid" "rid \<in> set (recipes (tick w))"
      "\<not> list_ex (\<lambda>s. user_id s = u \<and> s_recipe_id s = rid \<and> s_couple_id s = cid)
           (swipes (tick w))"
      "user_id (txn_row t) = u" "s_recipe_id (txn_row t) = rid"
      "s_couple_id (txn_row t) = cid" "direction (txn_row t) = d"
      "txn_match t = trigger_sees_partner_like (txn_row t)
                       ((tick w)\<lparr>swipes := swipes (tick w) @ [txn_row t]\<rparr>)"
    with a b Respond member_cong [of "tick w" w] show ?thesis by auto
  qed
next
  case (Fail e)
  with a show ?thesis by auto
next
  case (Throw e)
  with a show ?thesis by auto
qed

lemma advance_commit_cases:
  assumes a: "advance uid f (SwipeCommit t k) w = (t', w')"
  shows "\<exists>r. t' = SwipeTask (k r)
           \<and> ((f = Respond \<and> commit_insert_swipe t w = (r, w'))
              \<or> ((\<forall>s. r \<noteq> Data s) \<and> w' = w))"
  using a by (cases f) (auto split: prod.splits)

lemma advance_sound:
  assumes snd: "store_sound w" and a: "advance uid f t w = (t', w')"
  shows "store_sound w' \<and> grows w w'
         \<and> (task_guarded t w \<longrightarrow> swipes_by_members w \<longrightarrow> swipes_on_recipes w
              \<longrightarrow> matches_justified w
              \<longrightarrow> task_guarded t' w' \<and> swipes_by_members w' \<and> swipes_on_recipes w'
                  \<and> matches_justified w')"
proof (cases t)
  case (FavoriteTask p)
  with a obtain p' where "perform uid f p w = (p', w')" "t' = FavoriteTask p'"
    by (auto split: prod.splits)
  with perform_sound [OF snd this(1)] FavoriteTask show ?thesis by simp
next
  case (SwipeCommit txn k)
  from advance_commit_cases [OF a [unfolded SwipeCommit]] obtain r where
    t': "t' = SwipeTask (k r)"
    and c: "(f = Respond \<and> commit_insert_swipe txn w = (r, w')) \<or> ((\<forall>s. r \<noteq> Data s) \<and> w' = w)"
    by blast
  from c show ?thesis
  proof (elim disjE conjE)
    assume "commit_insert_swipe txn w = (r, w')"
    from commit_insert_swipe_sound [OF snd this]
    show ?thesis by (auto simp: SwipeCommit t')
  next
    assume "\<forall>s. r \<noteq> Data s" "w' = w"
    with snd show ?thesis by (auto simp: SwipeCommit t')
  qed
next
  case (SwipeTask p)
  show ?thesis
  proof (cases "\<exists>u rid cid d k. p = InsertSwipe u rid cid d k")
    case False
    then have "advance uid f (SwipeTask p) w
                 = (case perform uid f p w of (p', w') \<Rightarrow> (SwipeTask p', w'))"
      by (rule advance_other)
    with a SwipeTask obtain p' where "perform uid f p w = (p', w')" "t' = SwipeTask p'"
      by (auto split: prod.splits)
    with perform_sound [OF snd this(1)] SwipeTask show ?thesis by simp
  next
    case True
    then obtain u rid cid d k where p: "p = InsertSwipe u rid cid d k" by blast
    from advance_begin_cases [OF a [unfolded SwipeTask p]] show ?thesis
    proof (elim disjE conjE exE)
      fix r assume "\<forall>s. r \<noteq> Data s" "t' = SwipeTask (k r)" "w' = tick w"
      with snd show ?thesis by (auto simp: SwipeTask p)
    next
      fix txn
      assume t': "t' = SwipeCommit txn k" and mem: "member w u cid"
        and fk: "rid \<in> set (recipes w)"
        and row: "user_id (txn_row txn) = u" "s_recipe_id (txn_row txn) = rid"
                 "s_couple_id (txn_row txn) = cid" "direction (txn_row txn) = d"
        and tm: "txn_match txn = trigger_sees_partner_like (txn_row txn)
                               ((tick w)\<lparr>swipes := swipes w @ [txn_row txn]\<rparr>)"
        and w': "w' = (tick w)\<lparr>next_uuid := Suc (next_uuid w)\<rparr>"
      have f': "couples w' = couples w" "swipes w' = swipes w" "matches w' = matches w"
          "recipes w' = recipes w"
        by (simp_all add: w')
      have s': "store_sound w'" using snd store_sound_cong [OF f'(1,2,3)] by simp
      have g: "grows w w'" by (simp add: grows_def f')
      have l': "swipes_by_members w' = swipes_by_members w \<and> swipes_on_recipes w' = swipes_on_recipes w"
        by (rule ledger_cong) (simp_all add: f')
      have mj: "matches_justified w' = matches_justified w"
        by (rule matches_justified_cong) (simp_all add: f')
      let ?W = "(tick w)\<lparr>swipes := swipes w @ [txn_row txn]\<rparr>"
      let ?W' = "w'\<lparr>swipes := swipes w' @ [txn_row txn]\<rparr>"
      have j: "both_liked ?W' cid rid" if m: "txn_match txn"
      proof -
        from m tm have s: "trigger_sees_partner_like (txn_row txn) ?W" by simp
        from trigger_sees_cases [OF s] have "direction (txn_row txn) = Like" by simp
        then have own: "liked ?W (user_id (txn_row txn)) (s_recipe_id (txn_row txn))
                          (s_couple_id (txn_row txn))"
          by (auto simp: liked_iff)
        have pk: "couples_pkey ?W" using snd by (simp add: store_sound_def couples_pkey_def)
        have mm: "member ?W (user_id (txn_row txn)) (s_couple_id (txn_row txn))"
          using mem row member_cong [of ?W w] by simp
        from trigger_justified [OF pk mm own s]
        have "both_liked ?W cid rid" by (simp add: row)
        moreover have "both_liked ?W' = both_liked ?W"
          by (rule both_liked_cong) (simp_all add: f')
        ultimately show ?thesis by simp
      qed
      have tg: "task_guarded t' w'" if gd: "guarded p w"
        unfolding t' task_guarded.simps
      proof (intro conjI allI impI)
        show "member w' (user_id (txn_row txn)) (s_couple_id (txn_row txn))"
          using mem row member_cong [of w' w] by (simp add: f')
        show "s_recipe_id (txn_row txn) \<in> set (recipes w')" using fk row by (simp add: f')
        show "both_liked ?W' (s_couple_id (txn_row txn)) (s_recipe_id (txn_row txn))"
          if "txn_match txn" using j [OF that] by (simp add: row)
        fix r :: "Swipe reply" and v
        assume h: "grows w' v
                   \<and> (\<forall>s. r = Data s \<longrightarrow> direction (txn_row txn) = Like \<longrightarrow>
                         liked v (user_id (txn_row txn)) (s_recipe_id (txn_row txn))
                           (s_couple_id (txn_row txn)))"
        then have "grows w v" using grows_trans [OF g] by blast
        with gd h show "guarded (k r) v" by (simp add: p row)
      qed
      show ?thesis using s' g l' mj tg by (simp add: SwipeTask)
    qed
  qed
qed

lemma task_guarded_mono: "task_guarded t w \<Longrightarrow> grows w w' \<Longrightarrow> task_guarded t w'"
proof (cases t)
  case (SwipeTask p)
  assume "task_guarded t w" "grows w w'"
  with SwipeTask show ?thesis by (auto intro: guarded_mono)
next
  case (FavoriteTask p)
  assume "task_guarded t w" "grows w w'"
  with FavoriteTask show ?thesis by (auto intro: guarded_mono)
next
  case (SwipeCommit txn k)
  assume tg: "task_guarded t w" and g: "grows w w'"
  let ?r = "txn_row txn"
  from g have c: "couples w' = couples w" "recipes w' = recipes w" by (simp_all add: grows_def)
  have g1: "grows (w\<lparr>swipes := swipes w @ [?r]\<rparr>) (w'\<lparr>swipes := swipes w' @ [?r]\<rparr>)"
    using g by (auto simp: grows_def)
  have "member w' (user_id ?r) (s_couple_id ?r)"
    using tg member_cong [OF c(1)] by (simp add: SwipeCommit)
  moreover have "s_recipe_id ?r \<in> set (recipes w')" using tg c by (simp add: SwipeCommit)
  moreover have "both_liked (w'\<lparr>swipes := swipes w' @ [?r]\<rparr>) (s_couple_id ?r) (s_recipe_id ?r)"
    if "txn_match txn"
    using tg that both_liked_mono [OF g1] by (simp add: SwipeCommit)
  moreover have "guarded (k r) v"
    if "grows w' v" "\<forall>s. r = Data s \<longrightarrow> direction ?r = Like \<longrightarrow>
                           liked v (user_id ?r) (s_recipe_id ?r) (s_couple_id ?r)"
    for r :: "Swipe reply" and v
  proof -
    from that(1) have "grows w v" using grows_trans [OF g] by blast
    with tg that(2) show ?thesis by (simp add: SwipeCommit)
  qed
  ultimately show ?thesis by (simp add: SwipeCommit)
qed

lemma fire_sound: "store_sound (fst s) \<Longrightarrow> store_sound (fst (fire s ev))"
proof -
  assume snd: "store_sound (fst s)"
  obtain w ts where s: "s = (w, ts)" by (cases s)
  show ?thesis
  proof (cases ev)
    case (SwipeCard uid rid d)
    with s snd show ?thesis by (auto split: option.splits)
  next
    case (TapFavorite uid st mid)
    with s snd show ?thesis by simp
  next
    case (Advance i f)
    show ?thesis
    proof (cases "i < length ts")
      case True
      obtain uid t where t: "ts ! i = (uid, t)" by (cases "ts ! i")
      obtain t' w' where a: "advance uid f t w = (t', w')" by (cases "advance uid f t w")
      from advance_sound [OF _ a] snd s have "store_sound w'" by simp
      with True t a show ?thesis by (simp add: s Advance)
    next
      case False
      with s snd show ?thesis by (simp add: Advance)
    qed
  qed
qed

lemma fire_ok: "sys_ok s \<Longrightarrow> sys_ok (fire s ev)"
proof -
  assume ok: "sys_ok s"
  obtain w ts where s: "s = (w, ts)" by (cases s)
  from ok s have snd: "store_sound w" and mj: "matches_justified w"
    and sm: "swipes_by_members w" and sr: "swipes_on_recipes w"
    and tg: "\<And>uid t. (uid, t) \<in> set ts \<Longrightarrow> task_guarded t w"
    by (auto simp: sys_ok_def)
  show ?thesis
  proof (cases ev)
    case (SwipeCard uid rid d)
    show ?thesis
    proof (cases "getCurrentUserCouple w uid")
      case None
      with ok show ?thesis by (simp add: s SwipeCard handleSwipe_def)
    next
      case (Some c)
      from getCurrentUserCouple_Some [OF Some]
      have "guarded (recordSwipe (swipeScreen_options uid c) rid d) w"
        by (auto intro: guarded_recordSwipe)
      with snd mj sm sr tg show ?thesis
        by (auto simp: s SwipeCard handleSwipe_def Some sys_ok_def)
    qed
  next
    case (TapFavorite uid st mid)
    with snd mj sm sr tg show ?thesis
      by (auto simp: s sys_ok_def guarded_toggleFavorite)
  next
    case (Advance i f)
    show ?thesis
    proof (cases "i < length ts")
      case True
      obtain uid t where t: "ts ! i = (uid, t)" by (cases "ts ! i")
      obtain t' w' where a: "advance uid f t w = (t', w')" by (cases "advance uid f t w")
      from True t have "(uid, t) \<in> set ts" by (metis nth_mem)
      then have gt: "task_guarded t w" by (rule tg)
      from advance_sound [OF snd a] gt mj sm sr
      have r: "store_sound w'" "grows w w'" "task_guarded t' w'" "matches_justified w'"
          "swipes_by_members w'" "swipes_on_recipes w'"
        by simp_all
      have "task_guarded t2 w'" if "(u2, t2) \<in> set (ts[i := (uid, t')])" for u2 t2
      proof -
        from that have "(u2, t2) = (uid, t') \<or> (u2, t2) \<in> set ts"
          using set_update_subset_insert [of ts i "(uid, t')"] by auto
        then show ?thesis using r tg task_guarded_mono by blast
      qed
      with r True t a show ?thesis by (auto simp: s Advance sys_ok_def)
    next
      case False
      with ok show ?thesis by (simp add: s Advance)
    qed
  qed
qed

lemma exec_ok: "sys_ok s \<Longrightarrow> sys_ok (exec evs s)"
  unfolding exec_def
proof (induction evs arbitrary: s)
  case Nil
  then show ?case by simp
next
  case (Cons ev evs)
  from Cons.prems have "sys_ok (fire s ev)" by (rule fire_ok)
  then have "sys_ok (foldl fire (fire s ev) evs)" by (rule Cons.IH)
  then show ?case by simp
qed

lemma exec_sound: "store_sound (fst s) \<Longrightarrow> store_sound (fst (exec evs s))"
  unfolding exec_def
proof (induction evs arbitrary: s)
  case Nil
  then show ?case by simp
next
  case (Cons ev evs)
  from Cons.prems have "store_sound (fst (fire s ev))" by (rule fire_sound)
  then have "store_sound (fst (foldl fire (fire s ev) evs))" by (rule Cons.IH)
  then show ?case by simp
qed

lemma fresh_ok: "fresh_store w \<Longrightarrow> sys_ok (w, [])"
  by (auto simp: fresh_store_def sys_ok_def store_sound_def unique_swipes_def unique_matches_def
        swipes_by_members_def swipes_on_recipes_def matches_justified_def)




subsection \<open>When no step fails: every pair both users like gets its match\<close>











subsection \<open>What the calls of \<^verbatim>\<open>recordSwipe\<close> are answered\<close>

lemma answer_select_world:
  "snd (answer f (select_partner_like uid p rid cid) w) = tick w"
  "snd (answer f (select_match uid cid rid) w) = tick w"
  by (cases f; simp add: answer_def select_partner_like_def select_match_def)+

lemma answer_simps:
  "answer Respond stmt w = stmt (tick w)"
  "answer (Fail e) stmt w = (Error e, tick w)"
  "answer (Throw e) stmt w = (Threw e, tick w)"
  by (simp_all add: answer_def)

lemma accepted_swipe:
  assumes "answer f (insert_swipe uid u rid cid d) w = (Data sw, w1)"
  shows "f = Respond \<and> insert_swipe uid u rid cid d (tick w) = (Data sw, w1)
         \<and> sw \<in> set (swipes w1)"
proof -
  from answer_cases [OF assms]
  have a: "f = Respond" "insert_swipe uid u rid cid d (tick w) = (Data sw, w1)" by auto
  from insert_swipe_cases [OF a(2)] have "sw \<in> set (swipes w1)" by auto
  with a show ?thesis by simp
qed














subsection \<open>At most one match\<close>




subsection \<open>No match without two likes\<close>

lemma dislike_run_matches:
  "matches (snd (run (recordSwipe opts rid Dislike) uid fs v)) = matches v"
proof -
  obtain r w1 where a: "answer (next_fault fs) (insert_swipe uid (userId opts) rid (coupleId opts) Dislike) v = (r, w1)"
    by (cases "answer (next_fault fs) (insert_swipe uid (userId opts) rid (coupleId opts) Dislike) v")
  have m: "matches w1 = matches v"
    using answer_cases [OF a]
  proof (elim disjE conjE)
    assume "insert_swipe uid (userId opts) rid (coupleId opts) Dislike (tick v) = (r, w1)"
    from insert_swipe_cases [OF this] show ?thesis
      by (auto simp: check_for_match_def trigger_sees_partner_like_def)
  next
    assume "w1 = tick v" then show ?thesis by simp
  qed
  show ?thesis
    by (cases r) (simp_all add: recordSwipe_def a m recordSwipe_catch_def)
qed

text \<open>
  C3. From a store in which nobody has swiped, through any swipes and favourite taps (the
  hook taking its options from \<^verbatim>\<open>SwipeScreen\<close>, as in the app) and any interleaving
  and failures of the calls, swipe inserts overlapping: a match row for a couple and a
  recipe exists only if the couple is complete and both its users have a like on that
  recipe in the ledger (so none exists while only one of them has liked it, or while the
  second slot is empty); no match exists for a recipe on which a user of the couple has a
  dislike in the ledger; and a call of \<^verbatim>\<open>recordSwipe\<close> with a dislike leaves the
  \<^verbatim>\<open>matches\<close> table as it found it, in any world.
\<close>

theorem match_only_when_both_like:
  assumes "fresh_store w0"
  shows "(\<forall>cid rid. has_match (fst (exec evs (w0, []))) cid rid
            \<longrightarrow> both_liked (fst (exec evs (w0, []))) cid rid)
       \<and> (\<forall>s\<in>set (swipes (fst (exec evs (w0, [])))). direction s = Dislike
            \<longrightarrow> \<not> has_match (fst (exec evs (w0, []))) (s_couple_id s) (s_recipe_id s))
       \<and> (\<forall>opts rid uid fs v.
            matches (snd (run (recordSwipe opts rid Dislike) uid fs v)) = matches v)"
proof -
  let ?w = "fst (exec evs (w0, []))"
  have ok: "sys_ok (exec evs (w0, []))" using fresh_ok [OF assms] by (rule exec_ok)
  then have s: "store_sound ?w" and mj: "matches_justified ?w" and sm: "swipes_by_members ?w"
    by (simp_all add: sys_ok_def)
  have 1: "both_liked ?w cid rid" if "has_match ?w cid rid" for cid rid
    using that mj by (auto simp: has_match_iff matches_justified_iff)
  have 2: "\<not> has_match ?w (s_couple_id s) (s_recipe_id s)"
    if s_in: "s \<in> set (swipes ?w)" and d: "direction s = Dislike" for s
  proof
    assume "has_match ?w (s_couple_id s) (s_recipe_id s)"
    from 1 [OF this] obtain c q where c: "c \<in> set (couples ?w)" "c_id c = s_couple_id s"
        "user2_id c = Some q" "liked ?w (user1_id c) (s_recipe_id s) (s_couple_id s)"
        "liked ?w q (s_recipe_id s) (s_couple_id s)"
      by (auto simp: both_liked_iff)
    from sm s_in have "member ?w (user_id s) (s_couple_id s)"
      by (auto simp: swipes_by_members_def list_all_iff)
    then obtain c' where c': "c' \<in> set (couples ?w)" "c_id c' = s_couple_id s"
        "user1_id c' = user_id s \<or> user2_id c' = Some (user_id s)"
      by (auto simp: member_iff)
    from s have pk: "distinct (map c_id (couples ?w))" by (simp add: store_sound_def couples_pkey_def)
    have "c' = c" using pk c' c by (metis distinct_map_eq)
    with c' c have "liked ?w (user_id s) (s_recipe_id s) (s_couple_id s)" by auto
    then obtain s' where s': "s' \<in> set (swipes ?w)" "user_id s' = user_id s"
        "s_recipe_id s' = s_recipe_id s" "s_couple_id s' = s_couple_id s" "direction s' = Like"
      by (auto simp: liked_iff)
    from s have "distinct (map (\<lambda>s. (user_id s, s_recipe_id s, s_couple_id s)) (swipes ?w))"
      by (simp add: store_sound_def unique_swipes_def)
    then have "s' = s" using s' s_in
      by (intro distinct_map_eq [of "\<lambda>s. (user_id s, s_recipe_id s, s_couple_id s)" "swipes ?w"]) auto
    with s' d show False by simp
  qed
  from 1 2 dislike_run_matches show ?thesis by blast
qed

theorem match_only_when_both_like_witness:
  "fresh_store household
   \<and> liked (fst (exec evening (household, []))) 21 ''R1'' 10
   \<and> \<not> has_match (fst (exec evening (household, []))) 10 ''R1''
   \<and> liked (fst (exec evening (household, []))) 22 ''R3'' 10
   \<and> \<not> has_match (fst (exec evening (household, []))) 10 ''R3''
   \<and> liked (fst (exec evening (household, []))) 23 ''R1'' 11
   \<and> \<not> has_match (fst (exec evening (household, []))) 11 ''R1''
   \<and> has_match (fst (exec evening (household, []))) 10 ''R2''"
proof -
  have f: "fresh_store household" by code_simp
  have l: "liked (fst (exec evening (household, []))) 21 ''R1'' 10"
      "liked (fst (exec evening (household, []))) 22 ''R3'' 10"
      "liked (fst (exec evening (household, []))) 23 ''R1'' 11"
      "has_match (fst (exec evening (household, []))) 10 ''R2''"
    by code_simp+
  have n: "\<not> both_liked (fst (exec evening (household, []))) 10 ''R1''"
      "\<not> both_liked (fst (exec evening (household, []))) 10 ''R3''"
      "\<not> both_liked (fst (exec evening (household, []))) 11 ''R1''"
    by code_simp+
  note t = match_only_when_both_like [OF f, of evening]
  from t n have "\<not> has_match (fst (exec evening (household, []))) 10 ''R1''"
      "\<not> has_match (fst (exec evening (household, []))) 10 ''R3''"
      "\<not> has_match (fst (exec evening (household, []))) 11 ''R1''"
    by blast+
  with f l show ?thesis by blast
qed

section \<open>Match detection in \<^verbatim>\<open>recordSwipe\<close>\<close>

subsection \<open>What a call of recordSwipe can change\<close>

lemma answer_keeps:
  assumes "\<And>v r v'. stmt v = (r, v') \<Longrightarrow> outbox v' = outbox v \<and> set (swipes v) \<subseteq> set (swipes v')"
    and "answer f stmt w = (r, w')"
  shows "outbox w' = outbox w \<and> set (swipes w) \<subseteq> set (swipes w')"
  using answer_cases [OF assms(2)] assms(1) [of "tick w" r w'] by auto

lemma insert_swipe_keeps:
  "insert_swipe uid u rid cid d v = (r, v') \<Longrightarrow> outbox v' = outbox v \<and> set (swipes v) \<subseteq> set (swipes v')"
  using insert_swipe_cases [of uid u rid cid d v r v'] by auto

lemma insert_match_keeps:
  "insert_match uid cid rid fav v = (r, v') \<Longrightarrow> outbox v' = outbox v \<and> set (swipes v) \<subseteq> set (swipes v')"
  using insert_match_cases [of uid cid rid fav v r v'] by auto

lemma other_keeps:
  "select_partner_like uid p rid cid v = (r1, v1) \<Longrightarrow> outbox v1 = outbox v \<and> set (swipes v) \<subseteq> set (swipes v1)"
  "select_match uid cid rid v = (r2, v2) \<Longrightarrow> outbox v2 = outbox v \<and> set (swipes v) \<subseteq> set (swipes v2)"
  "select_push_token uid rid' v = (r3, v3) \<Longrightarrow> outbox v3 = outbox v \<and> set (swipes v) \<subseteq> set (swipes v3)"
  "update_match_favorite uid mid fav v = (r4, v4) \<Longrightarrow> outbox v4 = outbox v \<and> set (swipes v) \<subseteq> set (swipes v4)"
  by (auto simp: select_partner_like_def select_match_def select_push_token_def
        update_match_favorite_def)

lemma run_silent:
  "silent p \<Longrightarrow> outbox (snd (run p uid fs w)) = outbox w
                  \<and> set (swipes w) \<subseteq> set (swipes (snd (run p uid fs w)))"
proof (induction p arbitrary: fs w)
  case (Return a)
  then show ?case by simp
next
  case (Log e p)
  from Log.prems have "silent p" by simp
  from Log.IH [OF this, of fs "put_log e w"] show ?case by simp
next
  case (InsertSwipe u rid cid d k)
  obtain r w' where a: "answer (next_fault fs) (insert_swipe uid u rid cid d) w = (r, w')"
    by (cases "answer (next_fault fs) (insert_swipe uid u rid cid d) w")
  from answer_keeps [OF insert_swipe_keeps a]
  have "outbox w' = outbox w \<and> set (swipes w) \<subseteq> set (swipes w')" .
  moreover from InsertSwipe.prems have "silent (k r)" by simp
  then have "outbox (snd (run (k r) uid (tl fs) w')) = outbox w'
             \<and> set (swipes w') \<subseteq> set (swipes (snd (run (k r) uid (tl fs) w')))"
    by (rule InsertSwipe.IH [OF rangeI])
  ultimately show ?case by (auto simp: a)
next
  case (SelectPartnerLike p rid cid k)
  obtain r w' where a: "answer (next_fault fs) (select_partner_like uid p rid cid) w = (r, w')"
    by (cases "answer (next_fault fs) (select_partner_like uid p rid cid) w")
  from answer_keeps [OF other_keeps(1) a]
  have "outbox w' = outbox w \<and> set (swipes w) \<subseteq> set (swipes w')" .
  moreover from SelectPartnerLike.prems have "silent (k r)" by simp
  then have "outbox (snd (run (k r) uid (tl fs) w')) = outbox w'
             \<and> set (swipes w') \<subseteq> set (swipes (snd (run (k r) uid (tl fs) w')))"
    by (rule SelectPartnerLike.IH [OF rangeI])
  ultimately show ?case by (auto simp: a)
next
  case (SelectMatch cid rid k)
  obtain r w' where a: "answer (next_fault fs) (select_match uid cid rid) w = (r, w')"
    by (cases "answer (next_fault fs) (select_match uid cid rid) w")
  from answer_keeps [OF other_keeps(2) a]
  have "outbox w' = outbox w \<and> set (swipes w) \<subseteq> set (swipes w')" .
  moreover from SelectMatch.prems have "silent (k r)" by simp
  then have "outbox (snd (run (k r) uid (tl fs) w')) = outbox w'
             \<and> set (swipes w') \<subseteq> set (swipes (snd (run (k r) uid (tl fs) w')))"
    by (rule SelectMatch.IH [OF rangeI])
  ultimately show ?case by (auto simp: a)
next
  case (InsertMatch cid rid fav k)
  obtain r w' where a: "answer (next_fault fs) (insert_match uid cid rid fav) w = (r, w')"
    by (cases "answer (next_fault fs) (insert_match uid cid rid fav) w")
  from answer_keeps [OF insert_match_keeps a]
  have "outbox w' = outbox w \<and> set (swipes w) \<subseteq> set (swipes w')" .
  moreover from InsertMatch.prems have "silent (k r)" by simp
  then have "outbox (snd (run (k r) uid (tl fs) w')) = outbox w'
             \<and> set (swipes w') \<subseteq> set (swipes (snd (run (k r) uid (tl fs) w')))"
    by (rule InsertMatch.IH [OF rangeI])
  ultimately show ?case by (auto simp: a)
next
  case (UpdateMatchFavorite mid fav k)
  obtain r w' where a: "answer (next_fault fs) (update_match_favorite uid mid fav) w = (r, w')"
    by (cases "answer (next_fault fs) (update_match_favorite uid mid fav) w")
  from answer_keeps [OF other_keeps(4) a]
  have "outbox w' = outbox w \<and> set (swipes w) \<subseteq> set (swipes w')" .
  moreover from UpdateMatchFavorite.prems have "silent (k r)" by simp
  then have "outbox (snd (run (k r) uid (tl fs) w')) = outbox w'
             \<and> set (swipes w') \<subseteq> set (swipes (snd (run (k r) uid (tl fs) w')))"
    by (rule UpdateMatchFavorite.IH [OF rangeI])
  ultimately show ?case by (auto simp: a)
next
  case (SelectPushToken rid k)
  obtain r w' where a: "answer (next_fault fs) (select_push_token uid rid) w = (r, w')"
    by (cases "answer (next_fault fs) (select_push_token uid rid) w")
  from answer_keeps [OF other_keeps(3) a]
  have "outbox w' = outbox w \<and> set (swipes w) \<subseteq> set (swipes w')" .
  moreover from SelectPushToken.prems have "silent (k r)" by simp
  then have "outbox (snd (run (k r) uid (tl fs) w')) = outbox w'
             \<and> set (swipes w') \<subseteq> set (swipes (snd (run (k r) uid (tl fs) w')))"
    by (rule SelectPushToken.IH [OF rangeI])
  ultimately show ?case by (auto simp: a)
next
  case (GatewaySend e k)
  then show ?case by simp
qed

lemma silent_recordSwipe: "silent (recordSwipe opts rid d)"
  by (auto simp: recordSwipe_def recordSwipe_catch_def split: reply.splits option.splits)

lemma silent_toggleFavorite: "silent (toggleFavorite st mid)"
  by (auto simp: toggleFavorite_def toggleFavorite_catch_def Let_def
        split: reply.splits option.splits)

text \<open>No path through recordSwipe reaches the gateway, and none removes a swipe.\<close>

lemma recordSwipe_sends_nothing:
  "outbox (snd (run (recordSwipe opts rid d) uid fs w)) = outbox w"
  using run_silent [OF silent_recordSwipe] by blast

subsection \<open>Notifications on a match\<close>

text \<open>
  C4. The claim asks for exactly one notification per match, sent by the call that created
  it. \<^verbatim>\<open>recordSwipe\<close> has no path to the gateway (lemma \<open>recordSwipe_sends_nothing\<close>),
  and nothing in the repository calls \<^verbatim>\<open>sendMatchNotification\<close>. Evaluated: Bob's like
  completes the match on R1, the result says \<^verbatim>\<open>isMatch\<close>, the table has the one row,
  and the gateway has received nothing; the same when Alice's and Bob's likes of R2 race.
\<close>

theorem match_without_notification:
  "isMatch (fst (run (recordSwipe bob_opts ''R1'' Like) 22 [] alice_liked))
   \<and> match_count bob_liked_too 10 ''R1'' = 1
   \<and> outbox bob_liked_too = []
   \<and> match_count (fst (exec race (household, []))) 10 ''R2'' = 1
   \<and> outbox (fst (exec race (household, []))) = []"
  by code_simp

subsection \<open>Who creates the match, and what the call reports\<close>






subsection \<open>Failures during match detection\<close>

text \<open>
  C6, as stated, fails. Bob likes R1 after Alice and the partner lookup comes back with an
  error: the caller gets the recorded swipe with \<^verbatim>\<open>isMatch: false\<close> and
  \<^verbatim>\<open>error: null\<close>. And a match insert that fails because the store is unreachable
  gives the caller the same result as one rejected as a duplicate; only the console tells
  them apart.
\<close>

theorem absorbed_failure_counterexample:
  "fst (run (recordSwipe bob_opts ''R1'' Like) 22 [Respond, Fail Unavailable] alice_liked)
     = \<lparr>swipe = Some \<lparr>s_id = 101, user_id = 22, s_recipe_id = ''R1'', s_couple_id = 10,
                      direction = Like, s_created_at = 3\<rparr>,
        isMatch = False, match = None, error = None\<rparr>
   \<and> fst (run (recordSwipe bob_opts ''R1'' Like) 22
          [Respond, Respond, Fail Unavailable, Fail Unavailable] alice_liked)
     = fst (run (recordSwipe bob_opts ''R1'' Like) 22
          [Respond, Respond, Fail Unavailable] alice_liked)
   \<and> console (snd (run (recordSwipe bob_opts ''R1'' Like) 22
          [Respond, Respond, Fail Unavailable, Fail Unavailable] alice_liked))
       = [ConsoleError ''Error creating match:'' Unavailable,
          LoggerError Unavailable ''useSwipes'' ''createMatch'']"
  by code_simp

text \<open>
  C6, amended. After an accepted like by a user with a partner: the recorded swipe is in
  the ledger when the call returns, whatever happens to the later calls; a partner lookup
  that comes back with an error is printed, logged under \<^verbatim>\<open>checkPartnerSwipe\<close> and
  absorbed, the result carrying the swipe, \<^verbatim>\<open>isMatch: false\<close> and no error; a match
  insert that comes back with any error, duplicate or store failure alike, is printed,
  logged under \<^verbatim>\<open>createMatch\<close> and absorbed into that same result; only an exception
  thrown by a call (the partner lookup, the existence check or the match insert) reaches
  the caller, as the error of a result without the swipe.
\<close>

theorem detection_failures_absorbed:
  assumes acc: "answer (next_fault fs) (insert_swipe uid (userId opts) rid (coupleId opts) Like) w
                  = (Data sw, w1)"
    and partner: "partnerId opts = Some p"
  shows "sw \<in> set (swipes (snd (run (recordSwipe opts rid Like) uid fs w)))
    \<and> (\<forall>e. next_fault (tl fs) = Fail e \<longrightarrow>
          run (recordSwipe opts rid Like) uid fs w
            = (\<lparr>swipe = Some sw, isMatch = False, match = None, error = None\<rparr>,
               put_log (LoggerError e ''useSwipes'' ''checkPartnerSwipe'')
                 (put_log (ConsoleError ''Error checking partner swipe:'' e) (tick w1))))
    \<and> (\<forall>ps e w4.
          next_fault (tl fs) = Respond
          \<and> fst (select_partner_like uid p rid (coupleId opts) (tick w1)) = Data (Some ps)
          \<and> (\<forall>m. fst (answer (next_fault (tl (tl fs))) (select_match uid (coupleId opts) rid)
                        (tick w1)) \<noteq> Data (Some m))
          \<and> (\<forall>x. fst (answer (next_fault (tl (tl fs))) (select_match uid (coupleId opts) rid)
                        (tick w1)) \<noteq> Threw x)
          \<and> answer (next_fault (tl (tl (tl fs)))) (insert_match uid (coupleId opts) rid False)
                (tick (tick w1)) = (Error e, w4)
          \<longrightarrow> run (recordSwipe opts rid Like) uid fs w
                = (\<lparr>swipe = Some sw, isMatch = False, match = None, error = None\<rparr>,
                   put_log (LoggerError e ''useSwipes'' ''createMatch'')
                     (put_log (ConsoleError ''Error creating match:'' e) w4)))
    \<and> (\<forall>e. next_fault (tl fs) = Throw e \<longrightarrow>
          fst (run (recordSwipe opts rid Like) uid fs w)
            = \<lparr>swipe = None, isMatch = False, match = None, error = Some e\<rparr>)
    \<and> (\<forall>ps e.
          next_fault (tl fs) = Respond
          \<and> fst (select_partner_like uid p rid (coupleId opts) (tick w1)) = Data (Some ps)
          \<and> next_fault (tl (tl fs)) = Throw e
          \<longrightarrow> fst (run (recordSwipe opts rid Like) uid fs w)
                = \<lparr>swipe = None, isMatch = False, match = None, error = Some e\<rparr>)
    \<and> (\<forall>ps e.
          next_fault (tl fs) = Respond
          \<and> fst (select_partner_like uid p rid (coupleId opts) (tick w1)) = Data (Some ps)
          \<and> (\<forall>m. fst (answer (next_fault (tl (tl fs))) (select_match uid (coupleId opts) rid)
                        (tick w1)) \<noteq> Data (Some m))
          \<and> (\<forall>x. fst (answer (next_fault (tl (tl fs))) (select_match uid (coupleId opts) rid)
                        (tick w1)) \<noteq> Threw x)
          \<and> next_fault (tl (tl (tl fs))) = Throw e
          \<longrightarrow> fst (run (recordSwipe opts rid Like) uid fs w)
                = \<lparr>swipe = None, isMatch = False, match = None, error = Some e\<rparr>)"
proof -
  obtain K where K: "recordSwipe opts rid Like
                       = InsertSwipe (userId opts) rid (coupleId opts) Like K"
    by (simp add: recordSwipe_def)
  have r: "run (recordSwipe opts rid Like) uid fs w = run (K (Data sw)) uid (tl fs) w1"
    by (simp add: K acc)
  have "silent (K (Data sw))" using silent_recordSwipe [of opts rid Like] by (simp add: K)
  from run_silent [OF this, of uid "tl fs" w1] accepted_swipe [OF acc]
  have 1: "sw \<in> set (swipes (snd (run (recordSwipe opts rid Like) uid fs w)))"
    by (auto simp: r)
  have 2: "run (recordSwipe opts rid Like) uid fs w
            = (\<lparr>swipe = Some sw, isMatch = False, match = None, error = None\<rparr>,
               put_log (LoggerError e ''useSwipes'' ''checkPartnerSwipe'')
                 (put_log (ConsoleError ''Error checking partner swipe:'' e) (tick w1)))"
    if "next_fault (tl fs) = Fail e" for e
    using that by (simp add: recordSwipe_def acc partner answer_simps)
  have 4: "fst (run (recordSwipe opts rid Like) uid fs w)
            = \<lparr>swipe = None, isMatch = False, match = None, error = Some e\<rparr>"
    if "next_fault (tl fs) = Throw e" for e
    using that by (simp add: recordSwipe_def acc partner answer_simps recordSwipe_catch_def)
  have 3: "run (recordSwipe opts rid Like) uid fs w
                = (\<lparr>swipe = Some sw, isMatch = False, match = None, error = None\<rparr>,
                   put_log (LoggerError e ''useSwipes'' ''createMatch'')
                     (put_log (ConsoleError ''Error creating match:'' e) w4))"
    if a: "next_fault (tl fs) = Respond"
      and b: "fst (select_partner_like uid p rid (coupleId opts) (tick w1)) = Data (Some ps)"
      and c: "\<forall>m. fst (answer (next_fault (tl (tl fs))) (select_match uid (coupleId opts) rid)
                        (tick w1)) \<noteq> Data (Some m)"
      and d: "\<forall>x. fst (answer (next_fault (tl (tl fs))) (select_match uid (coupleId opts) rid)
                        (tick w1)) \<noteq> Threw x"
      and e: "answer (next_fault (tl (tl (tl fs)))) (insert_match uid (coupleId opts) rid False)
                (tick (tick w1)) = (Error e, w4)"
    for ps e w4
  proof -
    have s2: "answer (next_fault (tl fs)) (select_partner_like uid p rid (coupleId opts)) w1
                = (Data (Some ps), tick w1)"
      using a b by (simp add: answer_simps select_partner_like_def)
    obtain r3 where s3: "answer (next_fault (tl (tl fs))) (select_match uid (coupleId opts) rid)
                           (tick w1) = (r3, tick (tick w1))"
      using answer_select_world(2) [of "next_fault (tl (tl fs))" uid "coupleId opts" rid "tick w1"]
      by (cases "answer (next_fault (tl (tl fs))) (select_match uid (coupleId opts) rid) (tick w1)")
         simp
    from c d have "\<forall>m. r3 \<noteq> Data (Some m)" "\<forall>x. r3 \<noteq> Threw x"
      by (simp_all add: s3)
    then have r3: "r3 = Data None \<or> (\<exists>x. r3 = Error x)"
      by (cases r3) (auto intro: option.exhaust)
    then show ?thesis
      by (auto simp: recordSwipe_def acc partner s2 s3 e)
  qed
  have 5: "fst (run (recordSwipe opts rid Like) uid fs w)
            = \<lparr>swipe = None, isMatch = False, match = None, error = Some e\<rparr>"
    if a: "next_fault (tl fs) = Respond"
      and b: "fst (select_partner_like uid p rid (coupleId opts) (tick w1)) = Data (Some ps)"
      and t: "next_fault (tl (tl fs)) = Throw e"
    for ps e
  proof -
    have s2: "answer (next_fault (tl fs)) (select_partner_like uid p rid (coupleId opts)) w1
                = (Data (Some ps), tick w1)"
      using a b by (simp add: answer_simps select_partner_like_def)
    show ?thesis
      by (simp add: recordSwipe_def acc partner s2 t answer_simps recordSwipe_catch_def)
  qed
  have 6: "fst (run (recordSwipe opts rid Like) uid fs w)
            = \<lparr>swipe = None, isMatch = False, match = None, error = Some e\<rparr>"
    if a: "next_fault (tl fs) = Respond"
      and b: "fst (select_partner_like uid p rid (coupleId opts) (tick w1)) = Data (Some ps)"
      and c: "\<forall>m. fst (answer (next_fault (tl (tl fs))) (select_match uid (coupleId opts) rid)
                        (tick w1)) \<noteq> Data (Some m)"
      and d: "\<forall>x. fst (answer (next_fault (tl (tl fs))) (select_match uid (coupleId opts) rid)
                        (tick w1)) \<noteq> Threw x"
      and t: "next_fault (tl (tl (tl fs))) = Throw e"
    for ps e
  proof -
    have s2: "answer (next_fault (tl fs)) (select_partner_like uid p rid (coupleId opts)) w1
                = (Data (Some ps), tick w1)"
      using a b by (simp add: answer_simps select_partner_like_def)
    obtain r3 where s3: "answer (next_fault (tl (tl fs))) (select_match uid (coupleId opts) rid)
                           (tick w1) = (r3, tick (tick w1))"
      using answer_select_world(2) [of "next_fault (tl (tl fs))" uid "coupleId opts" rid "tick w1"]
      by (cases "answer (next_fault (tl (tl fs))) (select_match uid (coupleId opts) rid) (tick w1)")
         simp
    from c d have "\<forall>m. r3 \<noteq> Data (Some m)" "\<forall>x. r3 \<noteq> Threw x"
      by (simp_all add: s3)
    then have r3: "r3 = Data None \<or> (\<exists>x. r3 = Error x)"
      by (cases r3) (auto intro: option.exhaust)
    then show ?thesis
      by (auto simp: recordSwipe_def acc partner s2 s3 t answer_simps recordSwipe_catch_def)
  qed
  from 1 2 3 4 5 6 show ?thesis by blast
qed

theorem detection_failures_absorbed_witness:
  "run (recordSwipe bob_opts ''R1'' Like) 22 [Respond, Fail Unavailable] alice_liked
     = (\<lparr>swipe = Some bobs_swipe, isMatch = False, match = None, error = None\<rparr>,
        put_log (LoggerError Unavailable ''useSwipes'' ''checkPartnerSwipe'')
          (put_log (ConsoleError ''Error checking partner swipe:'' Unavailable)
             (tick (snd (answer Respond (insert_swipe 22 22 ''R1'' 10 Like) alice_liked)))))
   \<and> bobs_swipe \<in> set (swipes (snd (run (recordSwipe bob_opts ''R1'' Like) 22
         [Respond, Fail Unavailable] alice_liked)))
   \<and> fst (run (recordSwipe bob_opts ''R1'' Like) 22
         [Respond, Respond, Fail Unavailable, Fail Unavailable] alice_liked)
     = \<lparr>swipe = Some bobs_swipe, isMatch = False, match = None, error = None\<rparr>
   \<and> fst (run (recordSwipe bob_opts ''R1'' Like) 22
         [Respond, Respond, Fail Unavailable] alice_liked)
     = \<lparr>swipe = Some bobs_swipe, isMatch = False, match = None, error = None\<rparr>"
proof -
  let ?w1 = "snd (answer Respond (insert_swipe 22 22 ''R1'' 10 Like) alice_liked)"
  have o: "userId bob_opts = 22" "coupleId bob_opts = 10" "partnerId bob_opts = Some 21"
    by (simp_all add: bob_opts_def)
  have "fst (answer Respond (insert_swipe 22 22 ''R1'' 10 Like) alice_liked) = Data bobs_swipe"
    by code_simp
  then have acc: "answer Respond (insert_swipe 22 22 ''R1'' 10 Like) alice_liked
                    = (Data bobs_swipe, ?w1)"
    by (simp add: prod_eq_iff)
  have n: "next_fault (Respond # fs) = Respond" "next_fault (Fail e # fs) = Fail e"
      "next_fault [] = Respond" for fs e
    by (simp_all add: next_fault_def)
  note a = detection_failures_absorbed [where fs = "[Respond, Fail Unavailable]" and uid = 22
      and opts = bob_opts and rid = "''R1''" and w = alice_liked and sw = bobs_swipe
      and ?w1.0 = ?w1 and p = 21, unfolded o n list.sel, OF acc refl]
  from a have 1: "run (recordSwipe bob_opts ''R1'' Like) 22 [Respond, Fail Unavailable] alice_liked
     = (\<lparr>swipe = Some bobs_swipe, isMatch = False, match = None, error = None\<rparr>,
        put_log (LoggerError Unavailable ''useSwipes'' ''checkPartnerSwipe'')
          (put_log (ConsoleError ''Error checking partner swipe:'' Unavailable) (tick ?w1)))"
    by blast
  from a have 2: "bobs_swipe \<in> set (swipes (snd (run (recordSwipe bob_opts ''R1'' Like) 22
         [Respond, Fail Unavailable] alice_liked)))"
    by blast
  have ps: "fst (select_partner_like 22 21 ''R1'' 10 (tick ?w1))
              = Data (Some \<lparr>s_id = 100, user_id = 21, s_recipe_id = ''R1'', s_couple_id = 10,
                             direction = Like, s_created_at = 1\<rparr>)"
    by code_simp
  have sm: "fst (answer (Fail Unavailable) (select_match 22 10 ''R1'') (tick ?w1)) = Error Unavailable"
    by (simp add: answer_simps)
  have unavailable: "answer (Fail Unavailable) (insert_match 22 10 ''R1'' False) (tick (tick ?w1))
                       = (Error Unavailable, tick (tick (tick ?w1)))"
    by (simp add: answer_simps)
  have "fst (answer Respond (insert_match 22 10 ''R1'' False) (tick (tick ?w1)))
          = Error UniqueViolation"
    by code_simp
  then have duplicate: "answer Respond (insert_match 22 10 ''R1'' False) (tick (tick ?w1))
                    = (Error UniqueViolation,
                       snd (answer Respond (insert_match 22 10 ''R1'' False) (tick (tick ?w1))))"
    by (simp add: prod_eq_iff)
  note b = detection_failures_absorbed
      [where fs = "[Respond, Respond, Fail Unavailable, Fail Unavailable]" and uid = 22
      and opts = bob_opts and rid = "''R1''" and w = alice_liked and sw = bobs_swipe
      and ?w1.0 = ?w1 and p = 21, unfolded o n list.sel, OF acc refl]
  from b ps sm unavailable
  have 3: "fst (run (recordSwipe bob_opts ''R1'' Like) 22
         [Respond, Respond, Fail Unavailable, Fail Unavailable] alice_liked)
     = \<lparr>swipe = Some bobs_swipe, isMatch = False, match = None, error = None\<rparr>"
    by (metis fst_conv reply.distinct(1) reply.distinct(5))
  note c = detection_failures_absorbed
      [where fs = "[Respond, Respond, Fail Unavailable]" and uid = 22
      and opts = bob_opts and rid = "''R1''" and w = alice_liked and sw = bobs_swipe
      and ?w1.0 = ?w1 and p = 21, unfolded o n list.sel, OF acc refl]
  from c ps sm duplicate
  have 4: "fst (run (recordSwipe bob_opts ''R1'' Like) 22
         [Respond, Respond, Fail Unavailable] alice_liked)
     = \<lparr>swipe = Some bobs_swipe, isMatch = False, match = None, error = None\<rparr>"
    by (metis fst_conv reply.distinct(1) reply.distinct(5))
  from 1 2 3 4 show ?thesis by blast
qed

end
